theory Spec2Isabelle
  imports Complex_Main "HOL-Library.Sublist"
begin

section \<open>JavaScript strings\<close>

text \<open>
  A JavaScript string is a sequence of code units; it is modelled as a \<open>string\<close>
  (a list of characters).  Every operation below works unit by unit, so nothing depends
  on the width of a unit.  An index that JavaScript reports as \<open>-1\<close> is \<open>None\<close>.
\<close>

text \<open>\<open>index_from pat s\<close>: the least offset at which \<open>pat\<close> starts in \<open>s\<close>.\<close>

fun index_from :: "string \<Rightarrow> string \<Rightarrow> nat option" where
  "index_from pat [] = (if pat = [] then Some 0 else None)"
| "index_from pat (c # cs) =
     (if prefix pat (c # cs) then Some 0 else map_option Suc (index_from pat cs))"

text \<open>\<open>String.prototype.indexOf(pat, pos)\<close>; the position is clamped to the length.\<close>

definition indexOf :: "string \<Rightarrow> string \<Rightarrow> nat \<Rightarrow> nat option" where
  "indexOf s pat pos =
     map_option (\<lambda>k. min pos (length s) + k) (index_from pat (drop pos s))"

text \<open>\<open>String.prototype.substring(a, b)\<close>: clamps both ends and swaps them if needed.\<close>

definition substring :: "string \<Rightarrow> nat \<Rightarrow> nat \<Rightarrow> string" where
  "substring s a b = take (max a b - min a b) (drop (min a b) s)"

text \<open>\<open>String.prototype.substring(a)\<close>, to the end of the string.\<close>

definition substring_from :: "string \<Rightarrow> nat \<Rightarrow> string" where
  "substring_from s a = drop a s"

text \<open>
  The replacement text of \<open>String.prototype.replace\<close>: \<open>$$\<close> stands for a dollar
  sign, \<open>$&\<close> for the matched text, \<open>$`\<close> for the text before the match and
  \<open>$'\<close> for the text after it.  With a string pattern there are no capture groups, so
  \<open>$1\<close> and the like stay as they are.
\<close>

fun expand_replacement :: "string \<Rightarrow> string \<Rightarrow> string \<Rightarrow> string \<Rightarrow> string" where
  "expand_replacement matched pre post (c # d # rest) =
     (if c = CHR ''$'' \<and> d = CHR ''$'' then CHR ''$'' # expand_replacement matched pre post rest
      else if c = CHR ''$'' \<and> d = CHR ''&'' then matched @ expand_replacement matched pre post rest
      else if c = CHR ''$'' \<and> d = CHR 0x60 then pre @ expand_replacement matched pre post rest
      else if c = CHR ''$'' \<and> d = CHR 0x27 then post @ expand_replacement matched pre post rest
      else c # expand_replacement matched pre post (d # rest))"
| "expand_replacement matched pre post r = r"

text \<open>\<open>s.replace(pat, rep)\<close> with a string pattern: the first occurrence only.\<close>

definition replace_first :: "string \<Rightarrow> string \<Rightarrow> string \<Rightarrow> string" where
  "replace_first s pat rep =
     (case indexOf s pat 0 of
        None \<Rightarrow> s
      | Some i \<Rightarrow>
          take i s
          @ expand_replacement pat (take i s) (drop (i + length pat) s) rep
          @ drop (i + length pat) s)"

text \<open>\<open>s.replace(/'/g, "''")\<close>: every single quote is doubled.\<close>

definition replace_all_quotes :: "string \<Rightarrow> string" where
  "replace_all_quotes s = concat (map (\<lambda>c. if c = CHR 0x27 then [CHR 0x27, CHR 0x27] else [c]) s)"

text \<open>\<open>s.replace(/0+$/, '')\<close>: the run of zeros that ends the string is removed.\<close>

definition replace_trailing_zeros :: "string \<Rightarrow> string" where
  "replace_trailing_zeros s = rev (dropWhile (\<lambda>c. c = CHR ''0'') (rev s))"

text \<open>\<open>s.replace(/\.$/, '.0')\<close>: a final dot becomes \<open>.0\<close>.\<close>

definition replace_final_dot :: "string \<Rightarrow> string" where
  "replace_final_dot s = (if s \<noteq> [] \<and> last s = CHR ''.'' then butlast s @ ''.0'' else s)"

section \<open>JavaScript numbers\<close>

text \<open>
  A number is an IEEE double: not-a-number, an infinity, or a finite value, which is a
  rational.  Both zeros are \<open>Finite 0\<close>: they print alike and are equal under
  \<open>===\<close>.
\<close>

datatype number = NaN | Infinity | NegInfinity | Finite rat

text \<open>\<open>Number.isInteger\<close>.\<close>

fun isInteger :: "number \<Rightarrow> bool" where
  "isInteger (Finite x) = (of_int \<lfloor>x\<rfloor> = x)"
| "isInteger _ = False"

definition digit_char :: "int \<Rightarrow> char" where
  "digit_char d = ''0123456789'' ! nat d"

text \<open>The decimal digits of a natural number (an \<open>int\<close> that is not negative), most
  significant first.\<close>

function dec_digits :: "int \<Rightarrow> string" where
  "dec_digits n = (if n < 10 then [digit_char n] else dec_digits (n div 10) @ [digit_char (n mod 10)])"
  by pat_completeness auto
termination
  by (relation "measure nat") auto

declare dec_digits.simps [simp del]

text \<open>The number of binary digits of a natural number.\<close>

function bit_length :: "int \<Rightarrow> nat" where
  "bit_length n = (if n \<le> 0 then 0 else Suc (bit_length (n div 2)))"
  by pat_completeness auto
termination
  by (relation "measure nat") auto

declare bit_length.simps [simp del]

text \<open>
  The double nearest to a natural number below \<open>2 ^ 1024\<close>: 53 significant bits,
  ties to the even significand.
\<close>

definition round_to_double :: "int \<Rightarrow> int" where
  "round_to_double v =
     (if bit_length v \<le> 53 then v
      else let sh = bit_length v - 53;
               q = v div 2 ^ sh;
               r = v mod 2 ^ sh;
               half = 2 ^ (sh - 1)
           in (if r > half \<or> (r = half \<and> odd q) then q + 1 else q) * 2 ^ sh)"

text \<open>
  \<open>Number::toString\<close> prints a double \<open>x\<close> with the fewest significant digits
  that read back as \<open>x\<close>: integers \<open>s\<close>, \<open>k\<close> and \<open>n\<close> with
  \<open>10 ^ (k - 1) \<le> s < 10 ^ k\<close> such that \<open>s * 10 ^ (n - k)\<close> rounds to \<open>x\<close>,
  \<open>k\<close> as small as possible; among several such \<open>s\<close> the one closest to \<open>x\<close>,
  the even one on a tie.  For an integral \<open>x\<close> of at least one, \<open>k \<le> n\<close>.  A
  candidate is \<open>(distance, parity, s, n)\<close>.
\<close>

definition shortest_candidates :: "int \<Rightarrow> nat \<Rightarrow> (int \<times> int \<times> int \<times> nat) list" where
  "shortest_candidates x k =
     concat (map (\<lambda>n.
       concat (map (\<lambda>s.
         if k \<le> n \<and> 10 ^ (k - 1) \<le> s \<and> s < 10 ^ k \<and> round_to_double (s * 10 ^ (n - k)) = x
         then [(\<bar>x - s * 10 ^ (n - k)\<bar>, s mod 2, s, n)]
         else [])
         [x div 10 ^ (n - k), x div 10 ^ (n - k) + 1]))
       [length (dec_digits x), length (dec_digits x) + 1])"

fun least_candidate :: "(int \<times> int \<times> int \<times> nat) list \<Rightarrow> (int \<times> int \<times> int \<times> nat) option" where
  "least_candidate [] = None"
| "least_candidate (c # cs) =
     (case least_candidate cs of
        None \<Rightarrow> Some c
      | Some d \<Rightarrow> if fst d < fst c \<or> (fst d = fst c \<and> fst (snd d) < fst (snd c)) then Some d else Some c)"

text \<open>The search over \<open>k = 1, 2, ...\<close>; seventeen digits always suffice for a double.\<close>

fun shortest_digits :: "int \<Rightarrow> nat \<Rightarrow> nat \<Rightarrow> (int \<times> nat)" where
  "shortest_digits x k 0 = (x, length (dec_digits x))"
| "shortest_digits x k (Suc fuel) =
     (case least_candidate (shortest_candidates x k) of
        Some c \<Rightarrow> (fst (snd (snd c)), snd (snd (snd c)))
      | None \<Rightarrow> shortest_digits x (Suc k) fuel)"

text \<open>
  The digits that \<open>Number::toString\<close> prints for an integral double \<open>x\<close> of at
  least one.  With \<open>k \<le> n \<le> 21\<close> they are the digits of \<open>s\<close> followed by
  \<open>n - k\<close> zeros: the digits of \<open>x\<close> itself if \<open>s * 10 ^ (n - k)\<close> is
  \<open>x\<close>, and those of another integer that rounds to \<open>x\<close> otherwise.  With
  \<open>n > 21\<close> they are in exponent form.
\<close>

definition integer_digits :: "int \<Rightarrow> string" where
  "integer_digits x =
     (let (s, n) = shortest_digits x 1 17; ds = dec_digits s; k = length ds
      in if k \<le> n \<and> n \<le> 21 then ds @ replicate (n - k) CHR ''0''
         else (if k = 1 then ds else take 1 ds @ ''.'' @ drop 1 ds)
              @ ''e+'' @ dec_digits (int n - 1))"

text \<open>\<open>String(value)\<close> for an integral number: zero, or the sign and the digits.\<close>

definition integer_toString :: "int \<Rightarrow> string" where
  "integer_toString i =
     (if i = 0 then ''0'' else (if i < 0 then ''-'' else []) @ integer_digits \<bar>i\<bar>)"

text \<open>\<open>Number::toString\<close> as far as this program calls it: on values that are not
  finite and on integral values.\<close>

fun number_toString :: "number \<Rightarrow> string" where
  "number_toString NaN = ''NaN''"
| "number_toString Infinity = ''Infinity''"
| "number_toString NegInfinity = ''-Infinity''"
| "number_toString (Finite x) = integer_toString \<lfloor>x\<rfloor>"

text \<open>
  \<open>Number.prototype.toFixed(f)\<close>.  A value that is not finite prints as
  \<open>Number::toString\<close> prints it.  Otherwise the sign is split off, and below \<open>10 ^ 21\<close>
  the digits are those of the integer \<open>n\<close> nearest to \<open>x * 10 ^ f\<close> (the larger one
  on a tie), padded with zeros to \<open>f + 1\<close> digits, with the dot before the last \<open>f\<close>.
  A double of magnitude \<open>10 ^ 21\<close> or more is integral and prints as
  \<open>Number::toString\<close> prints it.
\<close>

definition toFixed_digits :: "rat \<Rightarrow> nat \<Rightarrow> string" where
  "toFixed_digits x f =
     (let n = \<lfloor>x * 10 ^ f + 1 / 2\<rfloor>;
          m = dec_digits n;
          m' = (if length m \<le> f then replicate (f + 1 - length m) CHR ''0'' @ m else m);
          k = length m'
      in if f = 0 then m' else take (k - f) m' @ ''.'' @ drop (k - f) m')"

fun toFixed :: "number \<Rightarrow> nat \<Rightarrow> string" where
  "toFixed (Finite x) f =
     (if x < 0 then ''-'' else [])
     @ (if \<bar>x\<bar> \<ge> 10 ^ 21 then integer_toString \<lfloor>\<bar>x\<bar>\<rfloor> else toFixed_digits \<bar>x\<bar> f)"
| "toFixed v f = number_toString v"

section \<open>Property values and their STEP text\<close>

text \<open>
  \<open>PropertyValue = string | number | boolean | null\<close>.  The type has no
  \<open>undefined\<close>; where the code tests a value for it, it does so together with \<open>null\<close>.
\<close>

datatype PropertyValue = VNull | VBool bool | VNum number | VStr string

text \<open>\<open>a !== b\<close> on property values: not-a-number differs from itself.\<close>

definition strict_neq :: "PropertyValue \<Rightarrow> PropertyValue \<Rightarrow> bool" where
  "strict_neq a b = (a \<noteq> b \<or> a = VNum NaN)"

fun formatIfcValue :: "PropertyValue \<Rightarrow> string" where
  "formatIfcValue VNull = ''$''"
| "formatIfcValue (VBool b) = (if b then ''.T.'' else ''.F.'')"
| "formatIfcValue (VNum v) =
     (if isInteger v then number_toString v
      else replace_final_dot (replace_trailing_zeros (toFixed v 6)))"
| "formatIfcValue (VStr s) = [CHR 0x27] @ replace_all_quotes s @ [CHR 0x27]"

section \<open>The model tree and its store\<close>

text \<open>
  The interfaces of \<open>types/index.ts\<close>.  Fields of different interfaces share names
  there; here the fields of a property and of a property set carry a prefix.  An express
  id is a STEP instance number, a natural number.
\<close>

record Property =
  prop_name :: string
  prop_expressID :: nat
  prop_value :: PropertyValue
  prop_type :: string
  originalValue :: PropertyValue
  modified :: bool

record PropertySet =
  pset_name :: string
  pset_expressID :: nat
  properties :: "Property list"
  isEditable :: bool

datatype Discipline = Architecture | Structure | MEP | Unknown

record IfcElement =
  expressID :: nat
  globalId :: string
  name :: string
  tag :: string
  ifcClass :: string
  ifcType :: nat
  level :: string
  zone :: string
  discipline :: Discipline
  psets :: "PropertySet list"
  modelID :: nat

text \<open>
  The part of the model store that the export engine and the editing flow read and write:
  the \<open>Map\<close> of elements, as the list of its entries in insertion order, and the
  original text (\<open>string | null\<close>).
\<close>

record ModelState =
  elements :: "(nat \<times> IfcElement) list"
  originalIfcText :: "string option"

text \<open>\<open>xs.find(P)\<close> is \<^const>\<open>find\<close>.  A found object is mutated in place: \<open>update_first P f xs\<close>
  applies \<open>f\<close> to the first member that satisfies \<open>P\<close>.\<close>

fun update_first :: "('a \<Rightarrow> bool) \<Rightarrow> ('a \<Rightarrow> 'a) \<Rightarrow> 'a list \<Rightarrow> 'a list" where
  "update_first P f [] = []"
| "update_first P f (x # xs) = (if P x then f x # xs else x # update_first P f xs)"

definition updatePropertyValue ::
  "nat \<Rightarrow> string \<Rightarrow> string \<Rightarrow> PropertyValue \<Rightarrow> ModelState \<Rightarrow> ModelState" where
  "updatePropertyValue elementID psetName propertyName v s =
     (case map_of (elements s) elementID of
        None \<Rightarrow> s
      | Some el \<Rightarrow>
          (case find (\<lambda>p. pset_name p = psetName) (psets el) of
             None \<Rightarrow> s
           | Some pset \<Rightarrow>
               (case find (\<lambda>p. prop_name p = propertyName) (properties pset) of
                  None \<Rightarrow> s
                | Some prop \<Rightarrow>
                    s\<lparr>elements :=
                        update_first (\<lambda>(k, e). k = elementID)
                          (\<lambda>(k, e). (k, e\<lparr>psets :=
                              update_first (\<lambda>p. pset_name p = psetName)
                                (\<lambda>ps. ps\<lparr>properties :=
                                    update_first (\<lambda>p. prop_name p = propertyName)
                                      (\<lambda>p. p\<lparr>prop_value := v, modified := True\<rparr>)
                                      (properties ps)\<rparr>)
                                (psets e)\<rparr>))
                          (elements s)\<rparr>)))"

text \<open>
  What the loader stores for a parsed property: the parsed value is both the current and
  the original value, and the property is not modified.
\<close>

definition loaded_property :: "Property \<Rightarrow> bool" where
  "loaded_property p = (originalValue p = prop_value p \<and> \<not> modified p)"

definition all_properties :: "ModelState \<Rightarrow> Property list" where
  "all_properties s = concat (map (\<lambda>(k, e). concat (map properties (psets e))) (elements s))"

definition loaded_state :: "ModelState \<Rightarrow> bool" where
  "loaded_state s = list_all loaded_property (all_properties s)"

text \<open>An editing session: calls of \<open>updatePropertyValue\<close>, one after the other.\<close>

type_synonym edit = "nat \<times> string \<times> string \<times> PropertyValue"

fun apply_edit :: "ModelState \<Rightarrow> edit \<Rightarrow> ModelState" where
  "apply_edit s (elementID, psetName, propertyName, v) =
     updatePropertyValue elementID psetName propertyName v s"

section \<open>The export engine\<close>

record PatchEntry =
  patch_expressID :: nat
  propertyName :: string
  psetName :: string
  oldValue :: string
  newValue :: string

text \<open>\<open>`#${patch.expressID}`\<close>: an express id prints as its decimal digits.\<close>

definition idStr :: "nat \<Rightarrow> string" where
  "idStr n = ''#'' @ dec_digits (int n)"

definition property_patches :: "PropertySet \<Rightarrow> Property \<Rightarrow> PatchEntry list" where
  "property_patches pset prop =
     (if modified prop \<and> strict_neq (prop_value prop) (originalValue prop)
      then [\<lparr>patch_expressID = prop_expressID prop,
             propertyName = prop_name prop,
             psetName = pset_name pset,
             oldValue = formatIfcValue (originalValue prop),
             newValue = formatIfcValue (prop_value prop)\<rparr>]
      else [])"

definition pset_patches :: "PropertySet \<Rightarrow> PatchEntry list" where
  "pset_patches pset =
     (if \<not> isEditable pset then [] else concat (map (property_patches pset) (properties pset)))"

definition collectModifiedProperties :: "ModelState \<Rightarrow> PatchEntry list" where
  "collectModifiedProperties s =
     concat (map (\<lambda>(k, element). concat (map pset_patches (psets element))) (elements s))"

definition extractHeaderSection :: "string \<Rightarrow> string" where
  "extractHeaderSection text =
     (case indexOf text ''HEADER;'' 0 of
        None \<Rightarrow> []
      | Some headerStart \<Rightarrow>
          (case indexOf text ''ENDSEC;'' headerStart of
             None \<Rightarrow> []
           | Some headerEnd \<Rightarrow> substring text headerStart (headerEnd + 7)))"

text \<open>One round of the loop of \<open>tryPatchExport\<close>; \<open>None\<close> is the early \<open>return null\<close>.\<close>

definition patch_step :: "string \<Rightarrow> PatchEntry \<Rightarrow> string option" where
  "patch_step result patch =
     (case indexOf result (idStr (patch_expressID patch) @ ''='') 0 of
        None \<Rightarrow> None
      | Some lineStart \<Rightarrow>
          (case indexOf result '';'' lineStart of
             None \<Rightarrow> None
           | Some lineEnd \<Rightarrow>
               (let originalLine = substring result lineStart (lineEnd + 1) in
                if oldValue patch = ''$'' then None
                else
                  (case indexOf originalLine (oldValue patch) 0 of
                     None \<Rightarrow> None
                   | Some oldIdx \<Rightarrow>
                       (let newLine = substring originalLine 0 oldIdx @ newValue patch
                              @ substring_from originalLine (oldIdx + length (oldValue patch))
                        in Some (substring result 0 lineStart @ newLine
                              @ substring_from result (lineEnd + 1)))))))"

fun tryPatchExport :: "string \<Rightarrow> PatchEntry list \<Rightarrow> string option" where
  "tryPatchExport result [] = Some result"
| "tryPatchExport result (patch # patches) =
     (case patch_step result patch of
        None \<Rightarrow> None
      | Some result' \<Rightarrow> tryPatchExport result' patches)"

subsection \<open>The regular expression of \<open>rebuildPropertyLine\<close>\<close>

text \<open>
  A matcher lists the ways its pattern matches at the start of a string, each as the
  matched text and the rest, in the order in which a backtracking engine tries them:
  a greedy repetition tries the longest run first, an optional part is tried before it
  is left out.
\<close>

type_synonym matcher = "string \<Rightarrow> (string \<times> string) list"

definition m_char :: "(char \<Rightarrow> bool) \<Rightarrow> matcher" where
  "m_char P s = (case s of [] \<Rightarrow> [] | c # cs \<Rightarrow> if P c then [([c], cs)] else [])"

definition m_seq :: "matcher \<Rightarrow> matcher \<Rightarrow> matcher" where
  "m_seq a b s = concat (map (\<lambda>(x, r). map (\<lambda>(y, r'). (x @ y, r')) (b r)) (a s))"

definition m_empty :: matcher where
  "m_empty s = [([], s)]"

definition m_seqs :: "matcher list \<Rightarrow> matcher" where
  "m_seqs ms = foldr m_seq ms m_empty"

definition m_opt :: "matcher \<Rightarrow> matcher" where
  "m_opt a s = a s @ [([], s)]"

definition m_star :: "(char \<Rightarrow> bool) \<Rightarrow> matcher" where
  "m_star P s = map (\<lambda>k. (take k s, drop k s)) (rev [0 ..< Suc (length (takeWhile P s))])"

definition m_plus :: "(char \<Rightarrow> bool) \<Rightarrow> matcher" where
  "m_plus P s = map (\<lambda>k. (take k s, drop k s)) (rev [1 ..< Suc (length (takeWhile P s))])"

text \<open>Under the flag \<open>i\<close> an ASCII letter of the pattern matches its two cases.\<close>

definition lower_ascii :: "char \<Rightarrow> char" where
  "lower_ascii c =
     (case map_of (zip ''ABCDEFGHIJKLMNOPQRSTUVWXYZ'' ''abcdefghijklmnopqrstuvwxyz'') c of
        Some l \<Rightarrow> l
      | None \<Rightarrow> c)"

definition m_lit_ci :: "string \<Rightarrow> matcher" where
  "m_lit_ci w = m_seqs (map (\<lambda>p. m_char (\<lambda>c. lower_ascii c = lower_ascii p)) w)"

text \<open>\<open>\d\<close> and \<open>\s\<close> (the white space among the first 256 code units).\<close>

definition is_digit :: "char \<Rightarrow> bool" where
  "is_digit c = (c \<in> set ''0123456789'')"

definition is_space :: "char \<Rightarrow> bool" where
  "is_space c = (c \<in> set [CHR '' '', CHR 0x09, CHR 0x0A, CHR 0x0B, CHR 0x0C, CHR 0x0D, CHR 0xA0])"

text \<open>\<open>(#\d+=\s*IFCPROPERTYSINGLEVALUE\s*\([^,]+,[^,]*,\s*)\<close>\<close>

definition line_prefix :: matcher where
  "line_prefix =
     m_seqs [m_char (\<lambda>c. c = CHR ''#''), m_plus is_digit, m_char (\<lambda>c. c = CHR ''=''),
             m_star is_space, m_lit_ci ''IFCPROPERTYSINGLEVALUE'', m_star is_space,
             m_char (\<lambda>c. c = CHR ''(''), m_plus (\<lambda>c. c \<noteq> CHR '',''),
             m_char (\<lambda>c. c = CHR '',''), m_star (\<lambda>c. c \<noteq> CHR '',''),
             m_char (\<lambda>c. c = CHR '',''), m_star is_space]"

text \<open>\<open>([^,)]+(?:\([^)]*\))?)\<close>\<close>

definition line_value :: matcher where
  "line_value =
     m_seqs [m_plus (\<lambda>c. c \<noteq> CHR '','' \<and> c \<noteq> CHR '')''),
             m_opt (m_seqs [m_char (\<lambda>c. c = CHR ''(''), m_star (\<lambda>c. c \<noteq> CHR '')''),
                            m_char (\<lambda>c. c = CHR '')'')])]"

text \<open>\<open>(\s*(?:,[^)]*)?;?\s*)\<close>\<close>

definition line_suffix :: matcher where
  "line_suffix =
     m_seqs [m_star is_space,
             m_opt (m_seqs [m_char (\<lambda>c. c = CHR '',''), m_star (\<lambda>c. c \<noteq> CHR '')'')]),
             m_opt (m_char (\<lambda>c. c = CHR '';'')), m_star is_space]"

text \<open>
  \<open>line.match(regex)\<close>: the three groups of the first way in which the whole line
  matches, the pattern being anchored at both ends.
\<close>

definition line_match :: "string \<Rightarrow> (string \<times> string \<times> string) option" where
  "line_match line =
     (case concat (map (\<lambda>(g1, r1).
             concat (map (\<lambda>(g2, r2).
               concat (map (\<lambda>(g3, r3). if r3 = [] then [(g1, g2, g3)] else []) (line_suffix r2)))
               (line_value r1)))
             (line_prefix line)) of
        [] \<Rightarrow> None
      | m # ms \<Rightarrow> Some m)"

text \<open>\<open>/^-?\d+(\.\d+)?$/.test(newValue)\<close>\<close>

definition is_digits :: "string \<Rightarrow> bool" where
  "is_digits w = (w \<noteq> [] \<and> list_all is_digit w)"

definition numeric_literal :: "string \<Rightarrow> bool" where
  "numeric_literal w =
     (let u = (case w of c # cs \<Rightarrow> if c = CHR ''-'' then cs else w | [] \<Rightarrow> w);
          whole = takeWhile is_digit u;
          rest = dropWhile is_digit u
      in whole \<noteq> [] \<and> (rest = [] \<or> (hd rest = CHR ''.'' \<and> is_digits (tl rest))))"

definition startsWith_quote :: "string \<Rightarrow> bool" where
  "startsWith_quote w = (w \<noteq> [] \<and> hd w = CHR 0x27)"

definition endsWith_quote :: "string \<Rightarrow> bool" where
  "endsWith_quote w = (w \<noteq> [] \<and> last w = CHR 0x27)"

definition wrap_value :: "string \<Rightarrow> string" where
  "wrap_value v =
     (if v = ''$'' then ''$''
      else if v = ''.T.'' \<or> v = ''.F.'' then ''IFCBOOLEAN('' @ v @ '')''
      else if numeric_literal v then ''IFCREAL('' @ v @ '')''
      else if startsWith_quote v \<and> endsWith_quote v then ''IFCLABEL('' @ v @ '')''
      else v)"

definition rebuildPropertyLine :: "string \<Rightarrow> string \<Rightarrow> string option" where
  "rebuildPropertyLine line v =
     (case line_match line of
        None \<Rightarrow> None
      | Some (pre, val, suf) \<Rightarrow> Some (pre @ wrap_value v @ suf))"

text \<open>One round of the loop of \<open>rewriteExport\<close>; a patch that cannot be applied is skipped.\<close>

definition rewrite_step :: "string \<Rightarrow> PatchEntry \<Rightarrow> string" where
  "rewrite_step result patch =
     (case indexOf result (idStr (patch_expressID patch) @ ''='') 0 of
        None \<Rightarrow> result
      | Some lineStart \<Rightarrow>
          (case indexOf result '';'' lineStart of
             None \<Rightarrow> result
           | Some lineEnd \<Rightarrow>
               (case rebuildPropertyLine (substring result lineStart (lineEnd + 1)) (newValue patch) of
                  None \<Rightarrow> result
                | Some newLine \<Rightarrow>
                    if newLine = [] then result
                    else substring result 0 lineStart @ newLine @ substring_from result (lineEnd + 1))))"

definition rewriteExport :: "string \<Rightarrow> PatchEntry list \<Rightarrow> string" where
  "rewriteExport originalText patches =
     (let headerSection = extractHeaderSection originalText;
          result = foldl rewrite_step originalText patches;
          newHeaderSection = extractHeaderSection result
      in if newHeaderSection \<noteq> headerSection
         then replace_first result newHeaderSection headerSection
         else result)"

datatype export_error = NoOriginalText

text \<open>
  \<open>exportModifiedIfc\<close> returns the text that it wraps in a \<open>Blob\<close>, or throws.  The
  tests \<open>!originalIfcText\<close> and \<open>!result\<close> hold for \<open>null\<close> and for the empty string.
\<close>

definition exportModifiedIfc :: "bool \<Rightarrow> ModelState \<Rightarrow> export_error + string" where
  "exportModifiedIfc forceRewrite s =
     (case originalIfcText s of
        None \<Rightarrow> Inl NoOriginalText
      | Some original \<Rightarrow>
          if original = [] then Inl NoOriginalText
          else
            (let patches = collectModifiedProperties s in
             if length patches = 0 then Inr original
             else
               (case (if \<not> forceRewrite then tryPatchExport original patches else None) of
                  None \<Rightarrow> Inr (rewriteExport original patches)
                | Some result \<Rightarrow>
                    if result = [] then Inr (rewriteExport original patches) else Inr result)))"

section \<open>The validation engine\<close>

datatype IssueSeverity = Error | Warning

datatype IssueType = MissingParam | MissingValue | WrongValue | Naming

datatype CheckType =
  CheckExists | CheckNotEmpty | CheckEquals | CheckInList | CheckRange | CheckRegex | CheckBoolean

record ValidationIssue =
  issue_id :: string
  issue_discipline :: string
  elementId :: string
  issue_globalId :: string
  issue_expressID :: nat
  issue_ifcClass :: string
  issue_name :: string
  issue_level :: string
  issue_zone :: string
  ruleId :: string
  ruleName :: string
  issueType :: IssueType
  propertyPath :: string
  issue_expected :: string
  actual :: string
  issue_severity :: IssueSeverity
  suggestedFix :: "string option"

record ValidateProperty =
  vp_name :: string
  vp_value :: PropertyValue
  vp_type :: string

record ValidatePset =
  vps_name :: string
  vps_properties :: "ValidateProperty list"

record ValidateElement =
  ve_expressID :: nat
  ve_globalId :: string
  ve_name :: string
  ve_tag :: string
  ve_ifcClass :: string
  ve_level :: string
  ve_zone :: string
  ve_discipline :: string
  ve_psets :: "ValidatePset list"

text \<open>\<open>expected?: PropertyValue | PropertyValue[]\<close>\<close>

datatype Expected = ExpUndefined | ExpValue PropertyValue | ExpList "PropertyValue list"

record Requirement =
  req_psetName :: string
  req_propertyName :: string
  checkType :: CheckType
  expected :: Expected
  req_min :: "number option"
  req_max :: "number option"
  pattern :: "string option"
  severity :: "IssueSeverity option"

record Applicability =
  ifcClasses :: "string list option"
  disciplines :: "string list option"
  psetNames :: "string list option"

record ValidateRule =
  rule_id :: string
  rule_name :: string
  rule_description :: string
  applicability :: Applicability
  requirements :: "Requirement list"

text \<open>
  What the engine takes from the JavaScript runtime: \<open>new RegExp(pattern).test(text)\<close>
  (\<open>None\<close> when the pattern is invalid and the constructor throws), \<open>String(n)\<close> for a
  number and \<open>Number(s)\<close> for a string.
\<close>

record Runtime =
  regexp_test :: "string \<Rightarrow> string \<Rightarrow> bool option"
  string_of_number :: "number \<Rightarrow> string"
  number_of_string :: "string \<Rightarrow> number"

text \<open>\<open>a || b\<close> on strings: the first one that is not empty.\<close>

definition or_else :: "string \<Rightarrow> string \<Rightarrow> string" where
  "or_else a b = (if a \<noteq> [] then a else b)"

definition getElementId :: "ValidateElement \<Rightarrow> string" where
  "getElementId el = or_else (or_else (ve_tag el) (ve_name el)) (ve_globalId el)"

fun getDefaultSeverity :: "IssueType \<Rightarrow> IssueSeverity" where
  "getDefaultSeverity MissingValue = Warning"
| "getDefaultSeverity Naming = Error"
| "getDefaultSeverity MissingParam = Error"
| "getDefaultSeverity WrongValue = Error"

text \<open>\<open>String(v)\<close>\<close>

fun to_text :: "Runtime \<Rightarrow> PropertyValue \<Rightarrow> string" where
  "to_text rt VNull = ''null''"
| "to_text rt (VBool b) = (if b then ''true'' else ''false'')"
| "to_text rt (VNum n) = string_of_number rt n"
| "to_text rt (VStr w) = w"

text \<open>\<open>String(value ?? '(empty)')\<close>\<close>

definition actual_text :: "Runtime \<Rightarrow> PropertyValue \<Rightarrow> string" where
  "actual_text rt v = (if v = VNull then ''(empty)'' else to_text rt v)"

text \<open>\<open>xs.join(sep)\<close>: \<open>null\<close> joins as the empty string.\<close>

fun join :: "string \<Rightarrow> string list \<Rightarrow> string" where
  "join sep [] = []"
| "join sep [x] = x"
| "join sep (x # y # ys) = x @ sep @ join sep (y # ys)"

definition join_values :: "Runtime \<Rightarrow> string \<Rightarrow> PropertyValue list \<Rightarrow> string" where
  "join_values rt sep vs = join sep (map (\<lambda>v. if v = VNull then [] else to_text rt v) vs)"

text \<open>\<open>String(req.expected)\<close>\<close>

fun expected_to_text :: "Runtime \<Rightarrow> Expected \<Rightarrow> string" where
  "expected_to_text rt ExpUndefined = ''undefined''"
| "expected_to_text rt (ExpValue v) = to_text rt v"
| "expected_to_text rt (ExpList vs) = join_values rt '','' vs"

text \<open>\<open>value !== req.expected\<close>: a value never equals \<open>undefined\<close> or an array.\<close>

fun differs_from_expected :: "PropertyValue \<Rightarrow> Expected \<Rightarrow> bool" where
  "differs_from_expected v (ExpValue e) = strict_neq v e"
| "differs_from_expected v _ = True"

text \<open>
  \<open>Array.isArray(req.expected) ? req.expected : [req.expected]\<close>, as what
  \<open>list.includes(value)\<close> and \<open>list.join(', ')\<close> make of it.  \<open>includes\<close> compares
  by \<open>SameValueZero\<close>, under which not-a-number equals itself.
\<close>

fun list_includes :: "Expected \<Rightarrow> PropertyValue \<Rightarrow> bool" where
  "list_includes ExpUndefined v = False"
| "list_includes (ExpValue e) v = (v = e)"
| "list_includes (ExpList es) v = (v \<in> set es)"

fun list_joined :: "Runtime \<Rightarrow> Expected \<Rightarrow> string" where
  "list_joined rt ExpUndefined = []"
| "list_joined rt (ExpValue e) = join_values rt '', '' [e]"
| "list_joined rt (ExpList es) = join_values rt '', '' es"

text \<open>\<open>Number(value)\<close>\<close>

fun to_number :: "Runtime \<Rightarrow> PropertyValue \<Rightarrow> number" where
  "to_number rt VNull = Finite 0"
| "to_number rt (VBool b) = Finite (if b then 1 else 0)"
| "to_number rt (VNum n) = n"
| "to_number rt (VStr w) = number_of_string rt w"

text \<open>\<open>a < b\<close> on numbers; a comparison with not-a-number is false.\<close>

fun number_less :: "number \<Rightarrow> number \<Rightarrow> bool" where
  "number_less NaN b = False"
| "number_less a NaN = False"
| "number_less a NegInfinity = False"
| "number_less NegInfinity b = True"
| "number_less Infinity b = False"
| "number_less a Infinity = True"
| "number_less (Finite x) (Finite y) = (x < y)"

text \<open>The two symbols outside ASCII of the range message, as their UTF-8 bytes.\<close>

definition infinity_sign :: string where
  "infinity_sign = [CHR 0xE2, CHR 0x88, CHR 0x9E]"

definition le_sign :: string where
  "le_sign = [CHR 0xE2, CHR 0x89, CHR 0xA4]"

definition range_text :: "Runtime \<Rightarrow> Requirement \<Rightarrow> string" where
  "range_text rt req =
     (case req_min req of None \<Rightarrow> ''-'' @ infinity_sign | Some m \<Rightarrow> string_of_number rt m)
     @ '' '' @ le_sign @ '' value '' @ le_sign @ '' ''
     @ (case req_max req of None \<Rightarrow> infinity_sign | Some m \<Rightarrow> string_of_number rt m)"

text \<open>The object that every \<open>issues.push\<close> builds.\<close>

definition make_issue ::
  "ValidateElement \<Rightarrow> ValidateRule \<Rightarrow> Requirement \<Rightarrow> IssueType \<Rightarrow> string \<Rightarrow> string
     \<Rightarrow> string option \<Rightarrow> ValidationIssue" where
  "make_issue element rule req ty expd act sfix =
     \<lparr>issue_id = dec_digits (int (ve_expressID element)) @ ''-'' @ rule_id rule @ ''-''
                   @ req_propertyName req,
      issue_discipline = ve_discipline element,
      elementId = getElementId element,
      issue_globalId = ve_globalId element,
      issue_expressID = ve_expressID element,
      issue_ifcClass = ve_ifcClass element,
      issue_name = ve_name element,
      issue_level = ve_level element,
      issue_zone = ve_zone element,
      ruleId = rule_id rule,
      ruleName = rule_name rule,
      issueType = ty,
      propertyPath = req_psetName req @ ''.'' @ req_propertyName req,
      issue_expected = expd,
      actual = act,
      issue_severity = (case severity req of Some sev \<Rightarrow> sev | None \<Rightarrow> getDefaultSeverity ty),
      suggestedFix = sfix\<rparr>"

text \<open>The \<open>switch\<close> on the check type, for a property that was found.\<close>

fun check_value ::
  "Runtime \<Rightarrow> ValidateElement \<Rightarrow> ValidateRule \<Rightarrow> Requirement \<Rightarrow> PropertyValue
     \<Rightarrow> CheckType \<Rightarrow> ValidationIssue list" where
  "check_value rt element rule req v CheckExists = []"
| "check_value rt element rule req v CheckNotEmpty =
     (if v = VNull \<or> v = VStr []
      then [make_issue element rule req MissingValue ''Value should not be empty''
              (actual_text rt v) None]
      else [])"
| "check_value rt element rule req v CheckEquals =
     (if differs_from_expected v (expected req)
      then [make_issue element rule req WrongValue (expected_to_text rt (expected req))
              (actual_text rt v) None]
      else [])"
| "check_value rt element rule req v CheckInList =
     (if \<not> list_includes (expected req) v
      then [make_issue element rule req WrongValue (''One of: '' @ list_joined rt (expected req))
              (actual_text rt v) None]
      else [])"
| "check_value rt element rule req v CheckRange =
     (let num = to_number rt v in
      if num = NaN
         \<or> (case req_min req of None \<Rightarrow> False | Some m \<Rightarrow> number_less num m)
         \<or> (case req_max req of None \<Rightarrow> False | Some m \<Rightarrow> number_less m num)
      then [make_issue element rule req WrongValue (range_text rt req) (actual_text rt v) None]
      else [])"
| "check_value rt element rule req v CheckRegex =
     (case pattern req of
        None \<Rightarrow> []
      | Some p \<Rightarrow>
          if p = [] then []
          else
            (case regexp_test rt p (if v = VNull then [] else to_text rt v) of
               None \<Rightarrow> []
             | Some matches \<Rightarrow>
                 if \<not> matches
                 then [make_issue element rule req Naming (''Matches: '' @ p) (actual_text rt v)
                         (Some ''Check naming convention'')]
                 else []))"
| "check_value rt element rule req v CheckBoolean =
     (if (case v of VBool b \<Rightarrow> False | _ \<Rightarrow> True)
         \<and> v \<noteq> VStr ''true'' \<and> v \<noteq> VStr ''false'' \<and> v \<noteq> VStr ''.T.'' \<and> v \<noteq> VStr ''.F.''
      then [make_issue element rule req WrongValue ''Boolean value (true/false)''
              (actual_text rt v) None]
      else [])"

text \<open>The body of the loop over the requirements of a rule.\<close>

definition check_requirement ::
  "Runtime \<Rightarrow> ValidateElement \<Rightarrow> ValidateRule \<Rightarrow> Requirement \<Rightarrow> ValidationIssue list" where
  "check_requirement rt element rule req =
     (case find (\<lambda>p. vps_name p = req_psetName req) (ve_psets element) of
        None \<Rightarrow>
          if checkType req = CheckExists \<or> checkType req = CheckNotEmpty
          then [make_issue element rule req MissingParam ''Property should exist''
                  ''Property set not found'' None]
          else []
      | Some pset \<Rightarrow>
          (case find (\<lambda>p. vp_name p = req_propertyName req) (vps_properties pset) of
             None \<Rightarrow>
               [make_issue element rule req MissingParam ''Property should exist''
                  ''Property not found'' None]
           | Some prop \<Rightarrow> check_value rt element rule req (vp_value prop) (checkType req)))"

text \<open>The two gates of \<open>checkElement\<close>: a list that is given and not empty must hold the
  element's class, respectively its discipline.\<close>

definition gate :: "string list option \<Rightarrow> string \<Rightarrow> bool" where
  "gate allowed x = (case allowed of None \<Rightarrow> True | Some xs \<Rightarrow> xs = [] \<or> x \<in> set xs)"

definition applies :: "ValidateRule \<Rightarrow> ValidateElement \<Rightarrow> bool" where
  "applies rule element =
     (gate (ifcClasses (applicability rule)) (ve_ifcClass element)
      \<and> gate (disciplines (applicability rule)) (ve_discipline element))"

definition checkElement :: "Runtime \<Rightarrow> ValidateElement \<Rightarrow> ValidateRule \<Rightarrow> ValidationIssue list" where
  "checkElement rt element rule =
     (if \<not> gate (ifcClasses (applicability rule)) (ve_ifcClass element) then []
      else if \<not> gate (disciplines (applicability rule)) (ve_discipline element) then []
      else concat (map (check_requirement rt element rule) (requirements rule)))"

record ValidateRequest =
  request_elements :: "ValidateElement list"
  request_rules :: "ValidateRule list"
  rulePackName :: string
  rulePackVersion :: string
  modelName :: string
  schema :: string

text \<open>The result message, without its time stamp.\<close>

record ValidateResult =
  issues :: "ValidationIssue list"
  totalElements :: int
  totalIssues :: int
  errors :: int
  warnings :: int
  passed :: int

text \<open>
  The two loops of \<open>runValidation\<close> thread \<open>allIssues\<close> and \<open>elementIssueMap\<close>, a
  \<open>Set\<close> of express ids, here the list of its members.  The progress messages posted on
  the way do not enter the result.
\<close>

definition validate_rule ::
  "Runtime \<Rightarrow> ValidateElement \<Rightarrow> ValidationIssue list \<times> nat list \<Rightarrow> ValidateRule
     \<Rightarrow> ValidationIssue list \<times> nat list" where
  "validate_rule rt element acc rule =
     (let found = checkElement rt element rule in
      if length found > 0
      then (fst acc @ found, List.insert (ve_expressID element) (snd acc))
      else acc)"

definition validate_element ::
  "Runtime \<Rightarrow> ValidateRule list \<Rightarrow> ValidationIssue list \<times> nat list \<Rightarrow> ValidateElement
     \<Rightarrow> ValidationIssue list \<times> nat list" where
  "validate_element rt rules acc element = foldl (validate_rule rt element) acc rules"

definition runValidation :: "Runtime \<Rightarrow> ValidateRequest \<Rightarrow> ValidateResult" where
  "runValidation rt request =
     (let total = int (length (request_elements request));
          (allIssues, elementIssueMap) =
             foldl (validate_element rt (request_rules request)) ([], []) (request_elements request)
      in \<lparr>issues = allIssues,
          totalElements = total,
          totalIssues = int (length allIssues),
          errors = int (length (filter (\<lambda>i. issue_severity i = Error) allIssues)),
          warnings = int (length (filter (\<lambda>i. issue_severity i = Warning) allIssues)),
          passed = total - int (length elementIssueMap)\<rparr>)"

section \<open>The IDS converter\<close>

datatype FacetType = FEntity | FAttribute | FProperty | FClassification | FMaterial | FPartOf

record IDSFacet =
  facet_type :: FacetType
  entityName :: "string option"
  attributeName :: "string option"
  facet_psetName :: "string option"
  facet_propertyName :: "string option"
  facet_value :: "string option"
  facet_pattern :: "string option"

datatype Cardinality = Required | Optional | Prohibited

record IDSRequirement =
  facet :: IDSFacet
  cardinality :: Cardinality
  requirement_description :: "string option"

record IDSSpecification =
  spec_name :: string
  spec_description :: "string option"
  ifcVersion :: "string option"
  spec_applicability :: "IDSFacet list"
  spec_requirements :: "IDSRequirement list"

text \<open>A rule of a pack has the shape of the rules that the validation engine reads.\<close>

record RulePack =
  pack_name :: string
  version :: string
  pack_description :: string
  rules :: "ValidateRule list"

text \<open>An optional string in a condition: present and not empty.\<close>

definition truthy :: "string option \<Rightarrow> bool" where
  "truthy v = (case v of None \<Rightarrow> False | Some w \<Rightarrow> w \<noteq> [])"

text \<open>\<open>v || ''\<close>\<close>

definition or_empty :: "string option \<Rightarrow> string" where
  "or_empty v = (case v of None \<Rightarrow> [] | Some w \<Rightarrow> w)"

fun facet_type_text :: "FacetType \<Rightarrow> string" where
  "facet_type_text FEntity = ''entity''"
| "facet_type_text FAttribute = ''attribute''"
| "facet_type_text FProperty = ''property''"
| "facet_type_text FClassification = ''classification''"
| "facet_type_text FMaterial = ''material''"
| "facet_type_text FPartOf = ''partOf''"

text \<open>The class names that the entity facets of the applicability give.\<close>

definition applicable_classes :: "IDSFacet list \<Rightarrow> string list" where
  "applicable_classes fs =
     concat (map (\<lambda>f. if facet_type f = FEntity \<and> truthy (entityName f)
                       then [or_empty (entityName f)] else []) fs)"

definition unsupported_applicability :: "IDSSpecification \<Rightarrow> string list" where
  "unsupported_applicability spec =
     concat (map (\<lambda>f. if facet_type f = FClassification \<or> facet_type f = FMaterial
                          \<or> facet_type f = FPartOf
                       then [facet_type_text (facet_type f) @ '' facet in \"'' @ spec_name spec @ ''\"'']
                       else []) (spec_applicability spec))"

text \<open>The requirement that a property facet becomes.\<close>

definition property_requirement :: "IDSRequirement \<Rightarrow> Requirement" where
  "property_requirement req =
     (let r = \<lparr>req_psetName = or_empty (facet_psetName (facet req)),
               req_propertyName = or_empty (facet_propertyName (facet req)),
               checkType = CheckExists,
               expected = ExpUndefined, req_min = None, req_max = None,
               pattern = None, severity = None\<rparr>
      in if cardinality req = Required then
           (if truthy (facet_value (facet req))
            then r\<lparr>checkType := CheckEquals, expected := ExpValue (VStr (or_empty (facet_value (facet req))))\<rparr>
            else if truthy (facet_pattern (facet req))
            then r\<lparr>checkType := CheckRegex, pattern := facet_pattern (facet req)\<rparr>
            else r\<lparr>checkType := CheckNotEmpty\<rparr>)
         else if cardinality req = Prohibited then r\<lparr>checkType := CheckExists\<rparr>
         else r)"

text \<open>The requirement that an attribute facet with a name becomes.\<close>

definition attribute_requirement :: "IDSRequirement \<Rightarrow> Requirement" where
  "attribute_requirement req =
     \<lparr>req_psetName = ''__attributes__'',
      req_propertyName = or_empty (attributeName (facet req)),
      checkType = (if truthy (facet_pattern (facet req)) then CheckRegex
                   else if truthy (facet_value (facet req)) then CheckEquals else CheckNotEmpty),
      expected = (case facet_value (facet req) of None \<Rightarrow> ExpUndefined | Some w \<Rightarrow> ExpValue (VStr w)),
      req_min = None, req_max = None,
      pattern = facet_pattern (facet req),
      severity = None\<rparr>"

text \<open>One round of the loop over the requirements of a specification: the requirements
  and the notes on unsupported facets that it adds.\<close>

definition convert_requirement :: "IDSSpecification \<Rightarrow> IDSRequirement \<Rightarrow> Requirement list \<times> string list" where
  "convert_requirement spec req =
     (if facet_type (facet req) = FProperty then ([property_requirement req], [])
      else if facet_type (facet req) = FAttribute then
        (if truthy (attributeName (facet req)) then ([attribute_requirement req], []) else ([], []))
      else ([], [facet_type_text (facet_type (facet req)) @ '' requirement in \"'' @ spec_name spec @ ''\"'']))"

text \<open>\<open>name.replace(/\s+/g, '-')\<close>: every run of white space becomes one hyphen.
  The flag says whether the unit before was white space.\<close>

fun replace_spaces_from :: "bool \<Rightarrow> string \<Rightarrow> string" where
  "replace_spaces_from in_run [] = []"
| "replace_spaces_from in_run (c # cs) =
     (if is_space c then (if in_run then [] else ''-'') @ replace_spaces_from True cs
      else c # replace_spaces_from False cs)"

definition replace_spaces :: "string \<Rightarrow> string" where
  "replace_spaces w = replace_spaces_from False w"

text \<open>\<open>toLowerCase\<close>, on the letters of ASCII.\<close>

definition toLowerCase :: "string \<Rightarrow> string" where
  "toLowerCase w = map lower_ascii w"

text \<open>One round of the loop over the specifications: the rules and the notes so far.\<close>

definition convert_specification ::
  "ValidateRule list \<times> string list \<Rightarrow> IDSSpecification \<Rightarrow> ValidateRule list \<times> string list" where
  "convert_specification acc spec =
     (let classes = applicable_classes (spec_applicability spec);
          converted = map (convert_requirement spec) (spec_requirements spec);
          reqs = concat (map fst converted);
          notes = snd acc @ unsupported_applicability spec @ concat (map snd converted)
      in if length reqs > 0
         then (fst acc @
                 [\<lparr>rule_id = ''ids-'' @ toLowerCase (replace_spaces (spec_name spec)) @ ''-''
                               @ dec_digits (int (length (fst acc))),
                   rule_name = spec_name spec,
                   rule_description = or_empty (spec_description spec),
                   applicability = \<lparr>ifcClasses = (if length classes > 0 then Some classes else None),
                                     disciplines = None, psetNames = None\<rparr>,
                   requirements = reqs\<rparr>],
               notes)
         else (fst acc, notes))"

definition idsToRulePack :: "IDSSpecification list \<Rightarrow> string \<Rightarrow> RulePack" where
  "idsToRulePack specs fileName =
     (let (rs, unsupportedFacets) = foldl convert_specification ([], []) specs
      in \<lparr>pack_name = ''IDS: '' @ fileName,
          version = ''1.0'',
          pack_description = ''Imported from '' @ fileName @ ''. ''
             @ dec_digits (int (length unsupportedFacets)) @ '' unsupported facets skipped.'',
          rules = rs\<rparr>)"

section \<open>Example data\<close>

definition null_runtime :: Runtime where
  "null_runtime = \<lparr>regexp_test = (\<lambda>p t. None), string_of_number = (\<lambda>n. []), number_of_string = (\<lambda>w. NaN)\<rparr>"

definition bare_element :: ValidateElement where
  "bare_element = \<lparr>ve_expressID = 7, ve_globalId = ''g7'', ve_name = ''Wall'', ve_tag = ''t7'',
     ve_ifcClass = ''IfcWall'', ve_level = ''L1'', ve_zone = [], ve_discipline = ''Architecture'',
     ve_psets = []\<rparr>"

definition wall_element :: ValidateElement where
  "wall_element = bare_element\<lparr>ve_psets :=
     [\<lparr>vps_name = ''Pset_WallCommon'',
       vps_properties = [\<lparr>vp_name = ''FireRating'', vp_value = VStr ''2HR'', vp_type = ''IfcLabel''\<rparr>]\<rparr>]\<rparr>"

definition requirement_of :: "string \<Rightarrow> string \<Rightarrow> CheckType \<Rightarrow> Requirement" where
  "requirement_of ps pn ct = \<lparr>req_psetName = ps, req_propertyName = pn, checkType = ct,
     expected = ExpUndefined, req_min = None, req_max = None, pattern = None, severity = None\<rparr>"

definition rule_of :: "string \<Rightarrow> Requirement list \<Rightarrow> ValidateRule" where
  "rule_of i reqs = \<lparr>rule_id = i, rule_name = ''Rule'', rule_description = [],
     applicability = \<lparr>ifcClasses = Some [''IfcWall''], disciplines = None, psetNames = None\<rparr>,
     requirements = reqs\<rparr>"

definition property_facet :: "string \<Rightarrow> string \<Rightarrow> string option \<Rightarrow> string option \<Rightarrow> IDSFacet" where
  "property_facet ps pn v pat = \<lparr>facet_type = FProperty, entityName = None, attributeName = None,
     facet_psetName = Some ps, facet_propertyName = Some pn, facet_value = v, facet_pattern = pat\<rparr>"

definition fire_rating_spec :: "IDSRequirement \<Rightarrow> IDSSpecification" where
  "fire_rating_spec req = \<lparr>spec_name = ''Wall Fire'', spec_description = None, ifcVersion = Some ''IFC4'',
     spec_applicability = [\<lparr>facet_type = FEntity, entityName = Some ''IFCWALL'', attributeName = None,
        facet_psetName = None, facet_propertyName = None, facet_value = None, facet_pattern = None\<rparr>],
     spec_requirements = [req]\<rparr>"

text \<open>The requirements that the loop of \<open>idsToRulePack\<close> collects for a specification.\<close>

definition converted_requirements :: "IDSSpecification \<Rightarrow> Requirement list" where
  "converted_requirements spec =
     concat (map fst (map (convert_requirement spec) (spec_requirements spec)))"

text \<open>A model of one wall with one editable property set, and the text it was loaded from.\<close>

definition fire_rating :: Property where
  "fire_rating = \<lparr>prop_name = ''FireRating'', prop_expressID = 12, prop_value = VStr ''2HR'',
     prop_type = ''IfcLabel'', originalValue = VStr ''2HR'', modified = False\<rparr>"

definition wall_text :: string where
  "wall_text = ''ISO-10303-21;HEADER;FILE_SCHEMA(('IFC4'));ENDSEC;DATA;#12=IFCPROPERTYSINGLEVALUE('FireRating',$,IFCLABEL('2HR'),$);ENDSEC;END-ISO-10303-21;''"

definition wall_state :: "Property \<Rightarrow> ModelState" where
  "wall_state p =
     \<lparr>elements = [(7, \<lparr>expressID = 7, globalId = ''g7'', name = ''Wall'', tag = ''t7'',
          ifcClass = ''IfcWall'', ifcType = 0, level = ''L1'', zone = [],
          discipline = Architecture,
          psets = [\<lparr>pset_name = ''Pset_WallCommon'', pset_expressID = 11, properties = [p],
                    isEditable = True\<rparr>],
          modelID = 0\<rparr>)],
      originalIfcText = Some wall_text\<rparr>"

text \<open>How a property stands to its state at load time.\<close>

definition tracks :: "Property \<Rightarrow> Property \<Rightarrow> bool" where
  "tracks p0 p = (prop_name p = prop_name p0 \<and> originalValue p = prop_value p0
                  \<and> (prop_value p \<noteq> prop_value p0 \<longrightarrow> modified p))"

text \<open>What a call of \<open>updatePropertyValue\<close> with the value \<open>v\<close> may do to a property.\<close>

definition touched :: "PropertyValue \<Rightarrow> Property \<Rightarrow> Property \<Rightarrow> bool" where
  "touched v p p' = (p' = p \<or> p' = p\<lparr>prop_value := v, modified := True\<rparr>)"

section \<open>The patch attempt, as the specification words it\<close>

text \<open>The line that begins with \<open>#<expressID>=\<close>, through the semicolon that ends it.\<close>

definition located_line :: "string \<Rightarrow> nat \<Rightarrow> string option" where
  "located_line text n =
     (case indexOf text (idStr n @ ''='') 0 of
        None \<Rightarrow> None
      | Some lineStart \<Rightarrow>
          (case indexOf text '';'' lineStart of
             None \<Rightarrow> None
           | Some lineEnd \<Rightarrow> Some (substring text lineStart (lineEnd + 1))))"

text \<open>
  The four ways in which a patch fails on a text: its line cannot be found, the semicolon
  that ends the line cannot be found, the old value is the literal \<open>$\<close>, or the old value
  does not occur in the line.
\<close>

definition patch_fails :: "string \<Rightarrow> PatchEntry \<Rightarrow> bool" where
  "patch_fails text p =
     (\<not> sublist (idStr (patch_expressID p) @ ''='') text
      \<or> (case indexOf text (idStr (patch_expressID p) @ ''='') 0 of
            None \<Rightarrow> False
          | Some lineStart \<Rightarrow> CHR '';'' \<notin> set (drop lineStart text))
      \<or> oldValue p = ''$''
      \<or> (case located_line text (patch_expressID p) of
            None \<Rightarrow> False
          | Some line \<Rightarrow> \<not> sublist (oldValue p) line))"

text \<open>
  The patched text: the first occurrence of the old value in the located line gives way
  to the new value, and nothing else changes.
\<close>

definition patched :: "string \<Rightarrow> PatchEntry \<Rightarrow> string" where
  "patched text p =
     (case indexOf text (idStr (patch_expressID p) @ ''='') 0 of
        None \<Rightarrow> text
      | Some lineStart \<Rightarrow>
          (case located_line text (patch_expressID p) of
             None \<Rightarrow> text
           | Some line \<Rightarrow>
               (case indexOf line (oldValue p) 0 of
                  None \<Rightarrow> text
                | Some k \<Rightarrow>
                    take (lineStart + k) text @ newValue p
                    @ drop (lineStart + k + length (oldValue p)) text)))"

text \<open>Two records, the first a property with the fire rating \<open>2HR\<close>, and patches of that property.\<close>

definition ref_patch :: "string \<Rightarrow> string \<Rightarrow> PatchEntry" where
  "ref_patch old new = \<lparr>patch_expressID = 12, propertyName = ''FireRating'',
     psetName = ''Pset_WallCommon'', oldValue = old, newValue = new\<rparr>"

definition two_lines :: string where
  "two_lines = ''#12=IFCPROPERTYSINGLEVALUE('FireRating',$,IFCLABEL('2HR'),$);#13=IFCLABEL('2HR');''"

text \<open>
  A file with one record, a count of one, and the model loaded from it after the count has
  been set to five; the patch that the export collects for it.
\<close>

definition count_text :: string where
  "count_text = ''ISO-10303-21;HEADER;FILE_SCHEMA(('IFC4'));ENDSEC;DATA;#12=IFCPROPERTYSINGLEVALUE('Count',$,IFCINTEGER(1),$);ENDSEC;END-ISO-10303-21;''"

definition count_state :: ModelState where
  "count_state =
     (wall_state \<lparr>prop_name = ''Count'', prop_expressID = 12, prop_value = VNum (Finite 5),
        prop_type = ''IfcInteger'', originalValue = VNum (Finite 1), modified = True\<rparr>)
       \<lparr>originalIfcText := Some count_text\<rparr>"

definition count_patch :: PatchEntry where
  "count_patch = \<lparr>patch_expressID = 12, propertyName = ''Count'',
     psetName = ''Pset_WallCommon'', oldValue = ''1'', newValue = ''5''\<rparr>"

text \<open>The issue id \<open><expressID>-<ruleId>-<propertyName>\<close> of a triple.\<close>

definition issue_id_of :: "nat \<Rightarrow> string \<Rightarrow> string \<Rightarrow> string" where
  "issue_id_of e r p = dec_digits (int e) @ ''-'' @ r @ ''-'' @ p"

section \<open>The value formats, as the specification words them\<close>

text \<open>The decimal digits of an integer, with its sign.\<close>

definition decimal :: "int \<Rightarrow> string" where
  "decimal i = (if i < 0 then ''-'' else []) @ dec_digits \<bar>i\<bar>"

text \<open>The \<open>j\<close> lowest decimal digits of a natural number, with leading zeros.\<close>

fun low_digits :: "nat \<Rightarrow> int \<Rightarrow> string" where
  "low_digits 0 n = []"
| "low_digits (Suc j) n = low_digits j (n div 10) @ [digit_char (n mod 10)]"

text \<open>Trailing zeros trimmed, but never below one digit.\<close>

definition trim_fraction :: "string \<Rightarrow> string" where
  "trim_fraction f =
     (if list_all (\<lambda>c. c = CHR ''0'') f then ''0''
      else rev (dropWhile (\<lambda>c. c = CHR ''0'') (rev f)))"

text \<open>
  Fixed point with six digits of precision: the sign, the digits of the whole part, a dot,
  and the trimmed fraction of the number rounded to a multiple of \<open>10\<^sup>-\<^sup>6\<close> (half
  away from zero).
\<close>

definition fixed_point :: "rat \<Rightarrow> string" where
  "fixed_point x =
     (let n = \<lfloor>\<bar>x\<bar> * 10 ^ 6 + 1 / 2\<rfloor>
      in (if x < 0 then ''-'' else []) @ dec_digits (n div 10 ^ 6) @ ''.''
         @ trim_fraction (low_digits 6 n))"

text \<open>A string in single quotes, every single quote inside it doubled.\<close>

primrec double_quotes :: "string \<Rightarrow> string" where
  "double_quotes [] = []"
| "double_quotes (c # cs) = (if c = CHR 0x27 then [CHR 0x27, CHR 0x27] else [c]) @ double_quotes cs"

definition quoted :: "string \<Rightarrow> string" where
  "quoted w = [CHR 0x27] @ double_quotes w @ [CHR 0x27]"

text \<open>A file whose header has a comment that quotes a record and holds two dollar signs.\<close>

definition commented_text :: string where
  "commented_text = ''ISO-10303-21;HEADER;/* $$ #12=IFCPROPERTYSINGLEVALUE('FireRating',$,IFCLABEL('2HR'); */FILE_SCHEMA(('IFC4'));ENDSEC;DATA;#12=IFCPROPERTYSINGLEVALUE('FireRating',$,IFCLABEL('2HR'),$);ENDSEC;END-ISO-10303-21;''"

section \<open>Validation results\<close>

lemma validate_rule_ids:
  "snd (validate_rule rt element acc r) = snd acc
   \<or> snd (validate_rule rt element acc r) = List.insert (ve_expressID element) (snd acc)"
  by (simp add: validate_rule_def Let_def)

lemma validate_element_ids:
  "snd (validate_element rt rs acc element) = snd acc
   \<or> snd (validate_element rt rs acc element) = List.insert (ve_expressID element) (snd acc)"
  unfolding validate_element_def
proof (induction rs arbitrary: acc)
  case Nil
  then show ?case by simp
next
  case (Cons r rs)
  from validate_rule_ids [of rt element acc r] Cons.IH [of "validate_rule rt element acc r"]
  show ?case by auto
qed

lemma validate_element_length:
  "length (snd (validate_element rt rs acc element)) \<le> Suc (length (snd acc))"
  using validate_element_ids [of rt rs acc element]
  by (auto simp: List.insert_def)

lemma validate_all_length:
  "length (snd (foldl (validate_element rt rs) acc els)) \<le> length (snd acc) + length els"
proof (induction els arbitrary: acc)
  case Nil
  then show ?case by simp
next
  case (Cons e els)
  have "length (snd (foldl (validate_element rt rs) (validate_element rt rs acc e) els))
        \<le> length (snd (validate_element rt rs acc e)) + length els"
    by (rule Cons.IH)
  also have "\<dots> \<le> Suc (length (snd acc)) + length els"
    using validate_element_length [of rt rs acc e] by simp
  finally show ?case by simp
qed

lemma severity_count:
  "length (filter (\<lambda>i. issue_severity i = Error) xs)
   + length (filter (\<lambda>i. issue_severity i = Warning) xs) = length xs"
proof (induction xs)
  case Nil
  then show ?case by simp
next
  case (Cons x xs)
  then show ?case by (cases "issue_severity x") auto
qed

text \<open>
  Claim C10.  In the result of every validation run the errors and the warnings add up to
  the total number of issues, a severity being \<open>Error\<close> or \<open>Warning\<close> and nothing
  else, and the number of passed elements lies between zero and the number of elements.
\<close>

theorem runValidation_counts:
  "errors (runValidation rt request) + warnings (runValidation rt request)
     = totalIssues (runValidation rt request)
   \<and> 0 \<le> passed (runValidation rt request)
   \<and> passed (runValidation rt request) \<le> totalElements (runValidation rt request)"
proof -
  obtain allIssues ids where run:
    "foldl (validate_element rt (request_rules request)) ([], []) (request_elements request)
       = (allIssues, ids)"
    by (cases "foldl (validate_element rt (request_rules request)) ([], []) (request_elements request)")
  have "length ids \<le> length (request_elements request)"
    using validate_all_length [of rt "request_rules request" "([], [])" "request_elements request"] run
    by simp
  with severity_count [of allIssues] run show ?thesis
    by (simp add: runValidation_def Let_def flip: of_nat_add)
qed

lemma find_None_names:
  "find (\<lambda>p. f p = n) xs = None \<longleftrightarrow> n \<notin> f ` set xs"
  by (auto simp: find_None_iff)

text \<open>
  Claim C6.  For an element to which the rule applies, each requirement adds its own
  issues, in order.  When the element has no property set of the requirement's name, the
  requirement adds one \<open>MissingParam\<close> issue if its check type is \<open>exists\<close> or
  \<open>notEmpty\<close>, and nothing for any other check type.  When the property set is found
  and has no property of the requirement's name, the requirement adds exactly one
  \<open>MissingParam\<close> issue, whatever the check type.  The severity of such an issue is the
  requirement's own if it has one, and \<open>Error\<close> otherwise.
\<close>

theorem checkElement_missing_param:
  assumes "applies r element" and "requirements r = pre @ req # post"
  shows "checkElement rt element r
           = concat (map (check_requirement rt element r) pre)
             @ check_requirement rt element r req
             @ concat (map (check_requirement rt element r) post)
    \<and> (req_psetName req \<notin> vps_name ` set (ve_psets element) \<longrightarrow>
         (if checkType req = CheckExists \<or> checkType req = CheckNotEmpty
          then check_requirement rt element r req
                 = [make_issue element r req MissingParam ''Property should exist''
                      ''Property set not found'' None]
          else check_requirement rt element r req = []))
    \<and> (\<forall>pset. find (\<lambda>p. vps_name p = req_psetName req) (ve_psets element) = Some pset
           \<and> req_propertyName req \<notin> vp_name ` set (vps_properties pset) \<longrightarrow>
         check_requirement rt element r req
           = [make_issue element r req MissingParam ''Property should exist''
                ''Property not found'' None])
    \<and> issueType (make_issue element r req MissingParam expd act None) = MissingParam
    \<and> issue_severity (make_issue element r req MissingParam expd act None)
         = (case severity req of None \<Rightarrow> Error | Some sev \<Rightarrow> sev)"
proof (intro conjI impI allI)
  from assms show "checkElement rt element r
           = concat (map (check_requirement rt element r) pre)
             @ check_requirement rt element r req
             @ concat (map (check_requirement rt element r) post)"
    by (simp add: checkElement_def applies_def)
next
  assume "req_psetName req \<notin> vps_name ` set (ve_psets element)"
  then have "find (\<lambda>p. vps_name p = req_psetName req) (ve_psets element) = None"
    by (simp add: find_None_names)
  then show "if checkType req = CheckExists \<or> checkType req = CheckNotEmpty
          then check_requirement rt element r req
                 = [make_issue element r req MissingParam ''Property should exist''
                      ''Property set not found'' None]
          else check_requirement rt element r req = []"
    by (simp add: check_requirement_def)
next
  fix pset
  assume "find (\<lambda>p. vps_name p = req_psetName req) (ve_psets element) = Some pset
           \<and> req_propertyName req \<notin> vp_name ` set (vps_properties pset)"
  then have "find (\<lambda>p. vps_name p = req_psetName req) (ve_psets element) = Some pset"
    and "find (\<lambda>p. vp_name p = req_propertyName req) (vps_properties pset) = None"
    by (simp_all add: find_None_names)
  then show "check_requirement rt element r req
           = [make_issue element r req MissingParam ''Property should exist''
                ''Property not found'' None]"
    by (simp add: check_requirement_def)
next
  show "issueType (make_issue element r req MissingParam expd act None) = MissingParam"
    by (simp add: make_issue_def)
next
  show "issue_severity (make_issue element r req MissingParam expd act None)
         = (case severity req of None \<Rightarrow> Error | Some sev \<Rightarrow> sev)"
    by (simp add: make_issue_def split: option.split)
qed

text \<open>
  The three cases on concrete elements: a wall whose property set lacks the property, and
  a wall without property sets under a \<open>notEmpty\<close> and under an \<open>equals\<close> check.
\<close>

theorem checkElement_missing_param_witness:
  "applies (rule_of ''sg-1'' [requirement_of ''Pset_WallCommon'' ''IsExternal'' CheckEquals]) wall_element
   \<and> checkElement null_runtime wall_element
        (rule_of ''sg-1'' [requirement_of ''Pset_WallCommon'' ''IsExternal'' CheckEquals])
      = [make_issue wall_element (rule_of ''sg-1'' [requirement_of ''Pset_WallCommon'' ''IsExternal'' CheckEquals])
           (requirement_of ''Pset_WallCommon'' ''IsExternal'' CheckEquals) MissingParam
           ''Property should exist'' ''Property not found'' None]
   \<and> applies (rule_of ''sg-2'' [requirement_of ''Pset_WallCommon'' ''FireRating'' CheckNotEmpty]) bare_element
   \<and> checkElement null_runtime bare_element
        (rule_of ''sg-2'' [requirement_of ''Pset_WallCommon'' ''FireRating'' CheckNotEmpty])
      = [make_issue bare_element (rule_of ''sg-2'' [requirement_of ''Pset_WallCommon'' ''FireRating'' CheckNotEmpty])
           (requirement_of ''Pset_WallCommon'' ''FireRating'' CheckNotEmpty) MissingParam
           ''Property should exist'' ''Property set not found'' None]
   \<and> applies (rule_of ''sg-3'' [requirement_of ''Pset_WallCommon'' ''FireRating'' CheckEquals]) bare_element
   \<and> checkElement null_runtime bare_element
        (rule_of ''sg-3'' [requirement_of ''Pset_WallCommon'' ''FireRating'' CheckEquals]) = []"
proof -
  let ?q1 = "requirement_of ''Pset_WallCommon'' ''IsExternal'' CheckEquals"
  let ?q2 = "requirement_of ''Pset_WallCommon'' ''FireRating'' CheckNotEmpty"
  let ?q3 = "requirement_of ''Pset_WallCommon'' ''FireRating'' CheckEquals"
  have a1: "applies (rule_of ''sg-1'' [?q1]) wall_element"
    and a2: "applies (rule_of ''sg-2'' [?q2]) bare_element"
    and a3: "applies (rule_of ''sg-3'' [?q3]) bare_element"
    by (simp_all add: applies_def gate_def rule_of_def wall_element_def bare_element_def)
  have r1: "requirements (rule_of ''sg-1'' [?q1]) = [] @ ?q1 # []"
    and r2: "requirements (rule_of ''sg-2'' [?q2]) = [] @ ?q2 # []"
    and r3: "requirements (rule_of ''sg-3'' [?q3]) = [] @ ?q3 # []"
    by (simp_all add: rule_of_def)
  note t1 = checkElement_missing_param [OF a1 r1, of null_runtime]
    and t2 = checkElement_missing_param [OF a2 r2, of null_runtime]
    and t3 = checkElement_missing_param [OF a3 r3, of null_runtime]
  from t1 have "checkElement null_runtime wall_element (rule_of ''sg-1'' [?q1])
      = [make_issue wall_element (rule_of ''sg-1'' [?q1]) ?q1 MissingParam
           ''Property should exist'' ''Property not found'' None]"
    by (simp add: wall_element_def bare_element_def requirement_of_def)
  moreover from t2 have "checkElement null_runtime bare_element (rule_of ''sg-2'' [?q2])
      = [make_issue bare_element (rule_of ''sg-2'' [?q2]) ?q2 MissingParam
           ''Property should exist'' ''Property set not found'' None]"
    by (simp add: bare_element_def requirement_of_def)
  moreover from t3 have "checkElement null_runtime bare_element (rule_of ''sg-3'' [?q3]) = []"
    by (simp add: bare_element_def requirement_of_def)
  ultimately show ?thesis using a1 a2 a3 by simp
qed

section \<open>IDS conversion\<close>

lemma convert_specification_rule:
  "converted_requirements spec \<noteq> [] \<Longrightarrow>
     \<exists>r \<in> set (fst (convert_specification acc spec)).
        rule_name r = spec_name spec \<and> requirements r = converted_requirements spec"
  by (simp add: convert_specification_def Let_def converted_requirements_def)

lemma convert_specification_keeps:
  "x \<in> set (fst acc) \<Longrightarrow> x \<in> set (fst (convert_specification acc spec))"
  by (simp add: convert_specification_def Let_def)

lemma convert_specifications_keep:
  "x \<in> set (fst acc) \<Longrightarrow> x \<in> set (fst (foldl convert_specification acc specs))"
proof (induction specs arbitrary: acc)
  case Nil
  then show ?case by simp
next
  case (Cons a specs)
  from Cons.prems have "x \<in> set (fst (convert_specification acc a))"
    by (rule convert_specification_keeps)
  then show ?case using Cons.IH by simp
qed

lemma convert_specifications_rule:
  assumes "spec \<in> set specs" and "converted_requirements spec \<noteq> []"
  shows "\<exists>r \<in> set (fst (foldl convert_specification acc specs)).
           rule_name r = spec_name spec \<and> requirements r = converted_requirements spec"
  using assms(1)
proof (induction specs arbitrary: acc)
  case Nil
  then show ?case by simp
next
  case (Cons a specs)
  show ?case
  proof (cases "spec = a")
    case True
    from convert_specification_rule [OF assms(2), of acc]
    obtain r where r: "r \<in> set (fst (convert_specification acc spec))"
      "rule_name r = spec_name spec" "requirements r = converted_requirements spec"
      by blast
    from r(1) have "r \<in> set (fst (foldl convert_specification (convert_specification acc spec) specs))"
      by (rule convert_specifications_keep)
    with r(2,3) True show ?thesis by auto
  next
    case False
    with Cons.prems have "spec \<in> set specs" by simp
    from Cons.IH [OF this, of "convert_specification acc a"] show ?thesis by simp
  qed
qed

lemma property_requirement_converted:
  assumes "req \<in> set (spec_requirements spec)" and "facet_type (facet req) = FProperty"
  shows "property_requirement req \<in> set (converted_requirements spec)"
  using assms by (force simp: converted_requirements_def convert_requirement_def)

text \<open>
  Claim C9.  A requirement of a specification whose facet is a property facet becomes the
  requirement \<open>property_requirement req\<close> of the rule made for that specification, with
  the facet's property set and property names.  With cardinality \<open>required\<close>: a literal
  value that is present (given and not empty) makes it an \<open>equals\<close> check that expects
  that literal; without one, a pattern that is present makes it a \<open>regex\<close> check with
  that pattern; with neither it is a \<open>notEmpty\<close> check.  With cardinality
  \<open>prohibited\<close> it is an \<open>exists\<close> check.
\<close>

theorem idsToRulePack_property_facet:
  assumes "spec \<in> set specs" and "req \<in> set (spec_requirements spec)"
    and "facet_type (facet req) = FProperty"
  shows "(\<exists>r \<in> set (rules (idsToRulePack specs fileName)).
            rule_name r = spec_name spec \<and> property_requirement req \<in> set (requirements r))
    \<and> req_psetName (property_requirement req) = or_empty (facet_psetName (facet req))
    \<and> req_propertyName (property_requirement req) = or_empty (facet_propertyName (facet req))
    \<and> (\<forall>v. cardinality req = Required \<and> facet_value (facet req) = Some v \<and> v \<noteq> [] \<longrightarrow>
          checkType (property_requirement req) = CheckEquals
          \<and> expected (property_requirement req) = ExpValue (VStr v))
    \<and> (\<forall>p. cardinality req = Required \<and> \<not> truthy (facet_value (facet req))
             \<and> facet_pattern (facet req) = Some p \<and> p \<noteq> [] \<longrightarrow>
          checkType (property_requirement req) = CheckRegex
          \<and> pattern (property_requirement req) = Some p)
    \<and> (cardinality req = Required \<and> \<not> truthy (facet_value (facet req))
          \<and> \<not> truthy (facet_pattern (facet req)) \<longrightarrow>
          checkType (property_requirement req) = CheckNotEmpty)
    \<and> (cardinality req = Prohibited \<longrightarrow> checkType (property_requirement req) = CheckExists)"
proof -
  from assms(2,3) have mem: "property_requirement req \<in> set (converted_requirements spec)"
    by (rule property_requirement_converted)
  then have "converted_requirements spec \<noteq> []" by auto
  from convert_specifications_rule [OF assms(1) this, of "([], [])"] mem
  have "\<exists>r \<in> set (rules (idsToRulePack specs fileName)).
            rule_name r = spec_name spec \<and> property_requirement req \<in> set (requirements r)"
    by (auto simp: idsToRulePack_def Let_def split: prod.splits)
  moreover have "req_psetName (property_requirement req) = or_empty (facet_psetName (facet req))"
    and "req_propertyName (property_requirement req) = or_empty (facet_propertyName (facet req))"
    by (simp_all add: property_requirement_def Let_def)
  moreover have "\<forall>v. cardinality req = Required \<and> facet_value (facet req) = Some v \<and> v \<noteq> [] \<longrightarrow>
          checkType (property_requirement req) = CheckEquals
          \<and> expected (property_requirement req) = ExpValue (VStr v)"
    by (simp add: property_requirement_def Let_def truthy_def or_empty_def)
  moreover have "\<forall>p. cardinality req = Required \<and> \<not> truthy (facet_value (facet req))
             \<and> facet_pattern (facet req) = Some p \<and> p \<noteq> [] \<longrightarrow>
          checkType (property_requirement req) = CheckRegex
          \<and> pattern (property_requirement req) = Some p"
    by (simp add: property_requirement_def Let_def truthy_def)
  moreover have "cardinality req = Required \<and> \<not> truthy (facet_value (facet req))
          \<and> \<not> truthy (facet_pattern (facet req)) \<longrightarrow>
          checkType (property_requirement req) = CheckNotEmpty"
    by (simp add: property_requirement_def Let_def)
  moreover have "cardinality req = Prohibited \<longrightarrow> checkType (property_requirement req) = CheckExists"
    by (simp add: property_requirement_def Let_def)
  ultimately show ?thesis by blast
qed

text \<open>A specification for walls with one required property and the literal \<open>1HR\<close>.\<close>

theorem idsToRulePack_property_facet_witness:
  "fire_rating_spec \<lparr>facet = property_facet ''Pset_WallCommon'' ''FireRating'' (Some ''1HR'') None,
       cardinality = Required, requirement_description = None\<rparr>
     \<in> set [fire_rating_spec \<lparr>facet = property_facet ''Pset_WallCommon'' ''FireRating'' (Some ''1HR'') None,
       cardinality = Required, requirement_description = None\<rparr>]
   \<and> facet_type (property_facet ''Pset_WallCommon'' ''FireRating'' (Some ''1HR'') None) = FProperty
   \<and> checkType (property_requirement
         \<lparr>facet = property_facet ''Pset_WallCommon'' ''FireRating'' (Some ''1HR'') None,
          cardinality = Required, requirement_description = None\<rparr>) = CheckEquals
   \<and> expected (property_requirement
         \<lparr>facet = property_facet ''Pset_WallCommon'' ''FireRating'' (Some ''1HR'') None,
          cardinality = Required, requirement_description = None\<rparr>) = ExpValue (VStr ''1HR'')
   \<and> map requirements (rules (idsToRulePack
         [fire_rating_spec \<lparr>facet = property_facet ''Pset_WallCommon'' ''FireRating'' (Some ''1HR'') None,
            cardinality = Required, requirement_description = None\<rparr>] ''walls.ids''))
       = [[property_requirement
            \<lparr>facet = property_facet ''Pset_WallCommon'' ''FireRating'' (Some ''1HR'') None,
             cardinality = Required, requirement_description = None\<rparr>]]"
proof -
  let ?q = "\<lparr>facet = property_facet ''Pset_WallCommon'' ''FireRating'' (Some ''1HR'') None,
             cardinality = Required, requirement_description = None\<rparr>"
  have h1: "fire_rating_spec ?q \<in> set [fire_rating_spec ?q]" by simp
  have h2: "?q \<in> set (spec_requirements (fire_rating_spec ?q))"
    by (simp add: fire_rating_spec_def)
  have h3: "facet_type (facet ?q) = FProperty"
    by (simp add: property_facet_def)
  have v: "facet_value (facet ?q) = Some ''1HR''"
    by (simp add: property_facet_def)
  from idsToRulePack_property_facet [OF h1 h2 h3, of "''walls.ids''"] v
  have "checkType (property_requirement ?q) = CheckEquals"
    and "expected (property_requirement ?q) = ExpValue (VStr ''1HR'')"
    by simp_all
  moreover have "map requirements (rules (idsToRulePack [fire_rating_spec ?q] ''walls.ids''))
       = [[property_requirement ?q]]"
    by (simp add: idsToRulePack_def convert_specification_def convert_requirement_def
        fire_rating_spec_def property_facet_def Let_def)
  ultimately show ?thesis using h1 h3 by simp
qed

section \<open>Export without modifications\<close>

lemma property_patches_empty:
  "\<not> (modified prop \<and> strict_neq (prop_value prop) (originalValue prop))
     \<Longrightarrow> property_patches pset prop = []"
  by (simp add: property_patches_def)

lemma pset_patches_empty:
  assumes "isEditable pset \<longrightarrow>
     (\<forall>prop \<in> set (properties pset). \<not> (modified prop \<and> strict_neq (prop_value prop) (originalValue prop)))"
  shows "pset_patches pset = []"
  using assms by (auto simp: pset_patches_def property_patches_empty)

text \<open>
  Claim C1.  Let the original text be present: the store holds a text, and the text is not
  empty (\<open>exportModifiedIfc\<close> tests \<open>!originalIfcText\<close>, which takes \<open>null\<close> and
  the empty string alike for a missing text).  If no property of an editable property set
  is modified with a value that differs (\<open>!==\<close>) from its original value, then no patch is
  collected and \<open>exportModifiedIfc\<close> returns the original text as it is, whether a
  rewrite is forced or not, and does not throw.
\<close>

theorem exportModifiedIfc_unmodified:
  assumes "originalIfcText s = Some original" and "original \<noteq> []"
    and "\<forall>(k, el) \<in> set (elements s). \<forall>pset \<in> set (psets el). isEditable pset \<longrightarrow>
           (\<forall>prop \<in> set (properties pset).
              \<not> (modified prop \<and> strict_neq (prop_value prop) (originalValue prop)))"
  shows "collectModifiedProperties s = [] \<and> exportModifiedIfc forceRewrite s = Inr original"
proof -
  have "collectModifiedProperties s = []"
    unfolding collectModifiedProperties_def
    using assms(3) by (auto simp: pset_patches_empty)
  with assms(1,2) show ?thesis
    by (simp add: exportModifiedIfc_def)
qed

text \<open>The wall model, untouched, and with a property that is flagged as modified while its
  value is the original one.\<close>

theorem exportModifiedIfc_unmodified_witness:
  "originalIfcText (wall_state (fire_rating\<lparr>modified := True\<rparr>)) = Some wall_text
   \<and> wall_text \<noteq> []
   \<and> collectModifiedProperties (wall_state (fire_rating\<lparr>modified := True\<rparr>)) = []
   \<and> exportModifiedIfc False (wall_state (fire_rating\<lparr>modified := True\<rparr>)) = Inr wall_text
   \<and> exportModifiedIfc True (wall_state fire_rating) = Inr wall_text"
proof -
  have t: "originalIfcText (wall_state p) = Some wall_text" for p
    by (simp add: wall_state_def)
  have n: "wall_text \<noteq> []"
    by (simp add: wall_text_def)
  have h: "\<forall>(k, el) \<in> set (elements (wall_state (fire_rating\<lparr>modified := m\<rparr>))).
           \<forall>pset \<in> set (psets el). isEditable pset \<longrightarrow>
           (\<forall>prop \<in> set (properties pset).
              \<not> (modified prop \<and> strict_neq (prop_value prop) (originalValue prop)))" for m
    by (simp add: wall_state_def fire_rating_def strict_neq_def)
  from exportModifiedIfc_unmodified [OF t n h [of True], of False]
    exportModifiedIfc_unmodified [OF t n h [of False], of True] t n
  show ?thesis by (simp add: fire_rating_def)
qed

section \<open>The modified flag\<close>

lemma update_first_rel:
  assumes "\<And>x. R x x" and "\<And>x. R x (f x)"
  shows "list_all2 R xs (update_first P f xs)"
proof (induction xs)
  case Nil
  then show ?case by simp
next
  case (Cons x xs)
  from assms(1) have "list_all2 R xs xs" by (simp add: list_all2_same)
  with Cons assms show ?case by simp
qed

lemma concat_rel:
  "list_all2 (\<lambda>x y. list_all2 Q (g x) (g y)) xs ys
     \<Longrightarrow> list_all2 Q (concat (map g xs)) (concat (map g ys))"
  by (induction xs ys rule: list_all2_induct) (auto intro: list_all2_appendI)

lemma touched_refl: "list_all2 (touched v) ps ps"
  by (simp add: list_all2_same touched_def)

lemma properties_touched:
  "list_all2 (touched v) ps
     (update_first P (\<lambda>p. p\<lparr>prop_value := v, modified := True\<rparr>) ps)"
  by (rule update_first_rel) (simp_all add: touched_def)

lemma psets_touched:
  "list_all2 (touched v) (concat (map properties pss))
     (concat (map properties
        (update_first P
           (\<lambda>ps. ps\<lparr>properties :=
              update_first P' (\<lambda>p. p\<lparr>prop_value := v, modified := True\<rparr>) (properties ps)\<rparr>)
           pss)))"
proof (rule concat_rel, rule update_first_rel)
  show "list_all2 (touched v) (properties x) (properties x)" for x
    by (rule touched_refl)
  show "list_all2 (touched v) (properties x)
     (properties (x\<lparr>properties :=
              update_first P' (\<lambda>p. p\<lparr>prop_value := v, modified := True\<rparr>) (properties x)\<rparr>))" for x
    by (simp add: properties_touched)
qed

lemma updatePropertyValue_touched:
  "list_all2 (touched v) (all_properties s)
     (all_properties (updatePropertyValue elementID psn prn v s))"
proof -
  let ?g = "\<lambda>(k, e). concat (map properties (psets e))"
  let ?f = "\<lambda>(k, e). (k, e\<lparr>psets :=
                              update_first (\<lambda>p. pset_name p = psn)
                                (\<lambda>ps. ps\<lparr>properties :=
                                    update_first (\<lambda>p. prop_name p = prn)
                                      (\<lambda>p. p\<lparr>prop_value := v, modified := True\<rparr>)
                                      (properties ps)\<rparr>)
                                (psets e)\<rparr>)"
  have "list_all2 (touched v) (concat (map ?g (elements s)))
          (concat (map ?g (update_first (\<lambda>(k, e). k = elementID) ?f (elements s))))"
  proof (rule concat_rel, rule update_first_rel)
    show "list_all2 (touched v) (?g x) (?g x)" for x
      by (rule touched_refl)
    show "list_all2 (touched v) (?g x) (?g (?f x))" for x
      by (cases x) (simp add: psets_touched)
  qed
  then show ?thesis
    by (auto simp: updatePropertyValue_def all_properties_def touched_refl split: option.splits)
qed

lemma tracks_touched: "tracks p0 p \<Longrightarrow> touched v p p' \<Longrightarrow> tracks p0 p'"
  by (auto simp: tracks_def touched_def)

lemma tracks_loaded: "loaded_state s \<Longrightarrow> list_all2 tracks (all_properties s) (all_properties s)"
  by (auto simp: loaded_state_def list_all2_same list_all_iff loaded_property_def tracks_def)

lemma tracks_edits:
  assumes "loaded_state s0"
  shows "list_all2 tracks (all_properties s0) (all_properties (foldl apply_edit s0 edits))"
proof (induction edits rule: rev_induct)
  case Nil
  from assms show ?case by (simp add: tracks_loaded)
next
  case (snoc e edits)
  obtain i ps pn v where e: "e = (i, ps, pn, v)" by (cases e)
  have "list_all2 (touched v) (all_properties (foldl apply_edit s0 edits))
          (all_properties (foldl apply_edit s0 (edits @ [e])))"
    by (simp add: e updatePropertyValue_touched)
  with snoc.IH show ?case
    by (rule list_all2_trans [rotated]) (rule tracks_touched)
qed


lemma find_update_first:
  assumes "\<And>x. P x \<Longrightarrow> P (f x)"
  shows "find P (update_first P f xs) = map_option f (find P xs)"
  using assms by (induction xs) auto

lemma map_of_update_first:
  "map_of (update_first (\<lambda>(k, e). k = i) (\<lambda>(k, e). (k, g e)) xs) i = map_option g (map_of xs i)"
  by (induction xs) auto

lemma updatePropertyValue_target:
  assumes "map_of (elements s) i = Some el"
    and "find (\<lambda>p. pset_name p = psn) (psets el) = Some pset"
    and "find (\<lambda>p. prop_name p = prn) (properties pset) = Some prop"
  shows "\<exists>el' pset'.
           map_of (elements (updatePropertyValue i psn prn v s)) i = Some el'
           \<and> find (\<lambda>p. pset_name p = psn) (psets el') = Some pset'
           \<and> find (\<lambda>p. prop_name p = prn) (properties pset')
               = Some (prop\<lparr>prop_value := v, modified := True\<rparr>)"
  using assms
  by (simp add: updatePropertyValue_def map_of_update_first find_update_first)

text \<open>
  Claim C7, as amended.  After any sequence of \<open>updatePropertyValue\<close> calls on a loaded
  model, every property still has the value at load time as its original value, and if its
  current value differs from the value at load time then it is flagged as modified.  The
  flag is sticky: a call that finds its target leaves it with the given value and
  \<open>modified = true\<close>, whatever the value.
\<close>

theorem modified_flag_sticky:
  assumes "loaded_state s0"
  shows "list_all2 tracks (all_properties s0) (all_properties (foldl apply_edit s0 edits))
    \<and> (\<forall>el pset prop.
          map_of (elements s) i = Some el
          \<and> find (\<lambda>p. pset_name p = psn) (psets el) = Some pset
          \<and> find (\<lambda>p. prop_name p = prn) (properties pset) = Some prop
          \<longrightarrow> (\<exists>el' pset'.
                 map_of (elements (updatePropertyValue i psn prn v s)) i = Some el'
                 \<and> find (\<lambda>p. pset_name p = psn) (psets el') = Some pset'
                 \<and> find (\<lambda>p. prop_name p = prn) (properties pset')
                     = Some (prop\<lparr>prop_value := v, modified := True\<rparr>)))"
  using tracks_edits [OF assms] updatePropertyValue_target by blast

text \<open>The wall model after one edit of its fire rating.\<close>

theorem modified_flag_sticky_witness:
  "loaded_state (wall_state fire_rating)
   \<and> list_all2 tracks (all_properties (wall_state fire_rating))
        (all_properties (foldl apply_edit (wall_state fire_rating)
           [(7, ''Pset_WallCommon'', ''FireRating'', VStr ''1HR'')]))
   \<and> all_properties (foldl apply_edit (wall_state fire_rating)
           [(7, ''Pset_WallCommon'', ''FireRating'', VStr ''1HR'')])
       = [fire_rating\<lparr>prop_value := VStr ''1HR'', modified := True\<rparr>]"
proof -
  have l: "loaded_state (wall_state fire_rating)"
    by (simp add: loaded_state_def all_properties_def wall_state_def loaded_property_def fire_rating_def)
  have "all_properties (foldl apply_edit (wall_state fire_rating)
           [(7, ''Pset_WallCommon'', ''FireRating'', VStr ''1HR'')])
       = [fire_rating\<lparr>prop_value := VStr ''1HR'', modified := True\<rparr>]"
    by (simp add: updatePropertyValue_def all_properties_def wall_state_def fire_rating_def)
  with modified_flag_sticky [OF l, of "[(7, ''Pset_WallCommon'', ''FireRating'', VStr ''1HR'')]"] l
  show ?thesis by simp
qed

text \<open>
  The claim as stated fails: after an edit and a second edit that sets the value at load
  time again (as undo does), the property is flagged as modified and its value is the
  original one.
\<close>

theorem modified_flag_counterexample:
  "loaded_state (wall_state fire_rating)
   \<and> all_properties (foldl apply_edit (wall_state fire_rating)
        [(7, ''Pset_WallCommon'', ''FireRating'', VStr ''1HR''),
         (7, ''Pset_WallCommon'', ''FireRating'', VStr ''2HR'')])
      = [fire_rating\<lparr>modified := True\<rparr>]
   \<and> modified (fire_rating\<lparr>modified := True\<rparr>)
   \<and> prop_value (fire_rating\<lparr>modified := True\<rparr>) = originalValue (fire_rating\<lparr>modified := True\<rparr>)
   \<and> prop_value (fire_rating\<lparr>modified := True\<rparr>) = prop_value fire_rating"
  by (simp add: loaded_state_def loaded_property_def updatePropertyValue_def all_properties_def
      wall_state_def fire_rating_def)

section \<open>The patch attempt\<close>

lemma index_from_None: "index_from pat s = None \<longleftrightarrow> \<not> sublist pat s"
  by (induction s) (auto simp: sublist_Cons_right)

lemma index_from_Some:
  "index_from pat s = Some k \<Longrightarrow> k \<le> length s \<and> prefix pat (drop k s)"
  by (induction s arbitrary: k) (auto split: if_splits)

lemma index_from_char_None: "index_from [c] s = None \<longleftrightarrow> c \<notin> set s"
  by (induction s) auto

lemma indexOf_None: "indexOf s pat 0 = None \<longleftrightarrow> \<not> sublist pat s"
  by (simp add: indexOf_def index_from_None)

lemma indexOf_char_None: "indexOf s [c] pos = None \<longleftrightarrow> c \<notin> set (drop pos s)"
  by (simp add: indexOf_def index_from_char_None)

lemma indexOf_Some:
  assumes "indexOf s pat pos = Some k"
  shows "min pos (length s) \<le> k" and "k + length pat \<le> length s"
    and "take (length pat) (drop k s) = pat"
proof -
  from assms obtain j where j: "index_from pat (drop pos s) = Some j" "k = min pos (length s) + j"
    by (auto simp: indexOf_def)
  from index_from_Some [OF j(1)] have b: "j \<le> length s - pos" and p: "prefix pat (drop (pos + j) s)"
    by (simp_all add: add.commute)
  from j(2) show "min pos (length s) \<le> k" by simp
  have d: "drop k s = drop (pos + j) s"
  proof (cases "pos \<le> length s")
    case True
    with j(2) show ?thesis by (simp add: min_def)
  next
    case False
    with b j(2) show ?thesis by simp
  qed
  from p obtain r where r: "drop k s = pat @ r"
    unfolding d by (auto simp: prefix_def)
  then show "take (length pat) (drop k s) = pat" by simp
  from r have "length (drop k s) = length pat + length r" by simp
  moreover have "k \<le> length s" using j(2) b by (simp add: min_def split: if_splits)
  ultimately show "k + length pat \<le> length s" by simp
qed

lemma drop_take_drop:
  assumes "j \<le> m" and "m \<le> length xs"
  shows "drop j (take m xs) @ drop m xs = drop j xs"
proof -
  have "drop j (take m xs @ drop m xs) = drop j (take m xs) @ drop (j - length (take m xs)) (drop m xs)"
    by (rule drop_append)
  with assms show ?thesis by (simp add: min_def)
qed

lemma splice_line:
  assumes "lineStart \<le> lineEnd" and "lineEnd < length src"
    and "k + n \<le> lineEnd + 1 - lineStart"
  shows "substring src 0 lineStart
         @ (substring (substring src lineStart (lineEnd + 1)) 0 k @ new
            @ substring_from (substring src lineStart (lineEnd + 1)) (k + n))
         @ substring_from src (lineEnd + 1)
       = take (lineStart + k) src @ new @ drop (lineStart + k + n) src"
proof -
  define m where "m = lineEnd + 1 - lineStart"
  define rest where "rest = drop lineStart src"
  have line: "substring src lineStart (lineEnd + 1) = take m rest"
    using assms(1) by (simp add: substring_def m_def rest_def)
  have m: "m \<le> length rest" "lineStart + m = lineEnd + 1"
    using assms(1,2) by (simp_all add: m_def rest_def)
  have "take (lineStart + k) src = take lineStart src @ take k rest"
    by (simp add: take_add rest_def)
  moreover have "take k (take m rest) = take k rest"
    using assms(3) by (simp add: min_def m_def)
  moreover have "drop (k + n) (take m rest) @ drop (lineEnd + 1) src = drop (lineStart + k + n) src"
  proof -
    have "drop (lineEnd + 1) src = drop m rest"
      using m(2) by (simp add: rest_def add.commute)
    moreover have "drop (k + n) (take m rest) @ drop m rest = drop (k + n) rest"
      using assms(3) m(1) by (intro drop_take_drop) (simp_all add: m_def)
    moreover have "drop (k + n) rest = drop (lineStart + k + n) src"
      by (simp add: rest_def add.commute add.left_commute)
    ultimately show ?thesis by simp
  qed
  ultimately show ?thesis
    unfolding line by (simp add: substring_def substring_from_def)
qed

lemma patch_step_found:
  assumes "indexOf src (idStr (patch_expressID p) @ ''='') 0 = Some lineStart"
    and "indexOf src '';'' lineStart = Some lineEnd"
    and "oldValue p \<noteq> ''$''"
    and "indexOf (substring src lineStart (lineEnd + 1)) (oldValue p) 0 = Some k"
  shows "patch_step src p
         = Some (take (lineStart + k) src @ newValue p
                 @ drop (lineStart + k + length (oldValue p)) src)"
    and "lineStart \<le> lineEnd" and "lineEnd < length src"
    and "k + length (oldValue p) \<le> lineEnd + 1 - lineStart"
proof -
  from indexOf_Some [OF assms(1)] have ls: "lineStart \<le> length src" by simp
  from indexOf_Some [OF assms(2)] ls show le: "lineStart \<le> lineEnd" "lineEnd < length src"
    by (simp_all add: min_def)
  have "length (substring src lineStart (lineEnd + 1)) = lineEnd + 1 - lineStart"
    using le by (simp add: substring_def)
  with indexOf_Some(2) [OF assms(4)] show k: "k + length (oldValue p) \<le> lineEnd + 1 - lineStart"
    by simp
  from assms splice_line [OF le k] show "patch_step src p
         = Some (take (lineStart + k) src @ newValue p
                 @ drop (lineStart + k + length (oldValue p)) src)"
    by (simp add: patch_step_def Let_def)
qed

lemma patch_step_spec:
  "patch_step src p = (if patch_fails src p then None else Some (patched src p))"
proof (cases "indexOf src (idStr (patch_expressID p) @ ''='') 0")
  case None
  then have "\<not> sublist (idStr (patch_expressID p) @ ''='') src"
    by (simp add: indexOf_None)
  with None show ?thesis
    by (simp add: patch_step_def patch_fails_def)
next
  case ls: (Some lineStart)
  then have found: "sublist (idStr (patch_expressID p) @ ''='') src"
    using indexOf_None [of src "idStr (patch_expressID p) @ ''=''"] by simp
  show ?thesis
  proof (cases "indexOf src '';'' lineStart")
    case None
    with ls found show ?thesis
      using indexOf_char_None [of src "CHR '';''" lineStart]
      by (simp add: patch_step_def patch_fails_def)
  next
    case le: (Some lineEnd)
    then have semi: "CHR '';'' \<in> set (drop lineStart src)"
      using indexOf_char_None [of src "CHR '';''" lineStart] by auto
    from ls le have line: "located_line src (patch_expressID p)
        = Some (substring src lineStart (lineEnd + 1))"
      by (simp add: located_line_def)
    show ?thesis
    proof (cases "oldValue p = ''$''")
      case True
      with ls le show ?thesis
        by (simp add: patch_step_def patch_fails_def Let_def)
    next
      case old: False
      show ?thesis
      proof (cases "indexOf (substring src lineStart (lineEnd + 1)) (oldValue p) 0")
        case None
        then have "\<not> sublist (oldValue p) (substring src lineStart (lineEnd + 1))"
          by (simp add: indexOf_None)
        with None ls le old line show ?thesis
          by (simp add: patch_step_def patch_fails_def Let_def)
      next
        case (Some k)
        then have "sublist (oldValue p) (substring src lineStart (lineEnd + 1))"
          using indexOf_None [of "substring src lineStart (lineEnd + 1)" "oldValue p"] by simp
        with patch_step_found(1) [OF ls le old Some] ls le old line Some found semi
        show ?thesis
          by (simp add: patch_fails_def patched_def)
      qed
    qed
  qed
qed


text \<open>
  Claim C3.  \<open>tryPatchExport\<close> applies the patches one after the other, each to the text
  that the patches before it have left.  It returns \<open>null\<close> if and only if some patch
  of the sequence fails on the text current at its turn: its line cannot be found, the
  semicolon that ends the line cannot be found, its old value is the literal \<open>$\<close>, or
  its old value does not occur in the line.  Otherwise it returns the patched text.
\<close>

theorem tryPatchExport_null_iff:
  "tryPatchExport src ps
     = (if \<exists>k < length ps. patch_fails (foldl patched src (take k ps)) (ps ! k)
        then None else Some (foldl patched src ps))"
proof (induction ps arbitrary: src)
  case Nil
  then show ?case by simp
next
  case (Cons p ps)
  show ?case
  proof (cases "patch_fails src p")
    case True
    then have "\<exists>k < length (p # ps). patch_fails (foldl patched src (take k (p # ps))) ((p # ps) ! k)"
      by (intro exI [of _ 0]) simp
    with True show ?thesis by (simp add: patch_step_spec)
  next
    case False
    have "(\<exists>k < length (p # ps). patch_fails (foldl patched src (take k (p # ps))) ((p # ps) ! k))
          \<longleftrightarrow> (\<exists>k < length ps. patch_fails (foldl patched (patched src p) (take k ps)) (ps ! k))"
      (is "?l \<longleftrightarrow> ?r")
    proof
      assume ?l
      then obtain k where k: "k < length (p # ps)"
        "patch_fails (foldl patched src (take k (p # ps))) ((p # ps) ! k)" by blast
      with False obtain j where "k = Suc j" by (cases k) auto
      with k show ?r by auto
    next
      assume ?r
      then obtain j where "j < length ps" "patch_fails (foldl patched (patched src p) (take j ps)) (ps ! j)"
        by blast
      then show ?l by (intro exI [of _ "Suc j"]) simp
    qed
    with False Cons.IH [of "patched src p"] show ?thesis
      by (simp add: patch_step_spec)
  qed
qed


text \<open>
  A second patch that finds the value the first one wrote, and would fail on the original
  text; and a second patch whose old value is \<open>$\<close>.
\<close>

theorem tryPatchExport_null_iff_witness:
  "tryPatchExport two_lines [ref_patch ''2HR'' ''1HR'', ref_patch ''1HR'' ''30''] =
     Some ''#12=IFCPROPERTYSINGLEVALUE('FireRating',$,IFCLABEL('30'),$);#13=IFCLABEL('2HR');''
   \<and> patch_fails two_lines (ref_patch ''1HR'' ''30'')
   \<and> tryPatchExport two_lines [ref_patch ''2HR'' ''1HR'', ref_patch ''$'' ''30''] = None"
proof -
  have "tryPatchExport two_lines [ref_patch ''2HR'' ''1HR'', ref_patch ''1HR'' ''30''] =
     Some ''#12=IFCPROPERTYSINGLEVALUE('FireRating',$,IFCLABEL('30'),$);#13=IFCLABEL('2HR');''"
    by code_simp
  moreover have "patch_fails two_lines (ref_patch ''1HR'' ''30'')"
    by code_simp
  moreover have "patch_fails (foldl patched two_lines (take 1 [ref_patch ''2HR'' ''1HR'', ref_patch ''$'' ''30'']))
     ([ref_patch ''2HR'' ''1HR'', ref_patch ''$'' ''30''] ! 1)"
    by (simp add: patch_fails_def ref_patch_def)
  then have "tryPatchExport two_lines [ref_patch ''2HR'' ''1HR'', ref_patch ''$'' ''30''] = None"
    using tryPatchExport_null_iff [of two_lines "[ref_patch ''2HR'' ''1HR'', ref_patch ''$'' ''30'']"]
    by (metis length_Cons less_Suc_eq_0_disj list.size(3) One_nat_def)
  ultimately show ?thesis by simp
qed

section \<open>A single patch\<close>

lemma prefix_short:
  "length p \<le> length xs \<Longrightarrow> prefix p (xs @ w) \<longleftrightarrow> prefix p xs"
  by (auto simp: prefix_append)

text \<open>Where no occurrence of the pattern starts before the pattern itself.\<close>

lemma index_from_token:
  assumes "\<not> sublist pat (pre @ butlast pat)"
  shows "index_from pat (pre @ pat @ post) = Some (length pre)"
  using assms
proof (induction pre)
  case Nil
  have "prefix pat (pat @ post)" by simp
  then show ?case by (cases "pat @ post") auto
next
  case (Cons c cs)
  from Cons.prems have ne: "pat \<noteq> []" by auto
  have "\<not> prefix pat (c # cs @ pat @ post)"
  proof
    assume p: "prefix pat (c # cs @ pat @ post)"
    from ne have eq: "c # cs @ pat @ post = (c # cs @ butlast pat) @ (last pat # post)"
      by simp
    from ne have len: "length pat \<le> length (c # cs @ butlast pat)" by simp
    from p have "prefix pat ((c # cs @ butlast pat) @ (last pat # post))"
      unfolding eq .
    then have "prefix pat (c # cs @ butlast pat)"
      using prefix_short [OF len] by blast
    then have "sublist pat ((c # cs) @ butlast pat)" by (simp add: prefix_imp_sublist)
    with Cons.prems show False by simp
  qed
  moreover from Cons.prems have "\<not> sublist pat (cs @ butlast pat)"
    by (simp add: sublist_Cons_right)
  then have "index_from pat (cs @ pat @ post) = Some (length cs)" by (rule Cons.IH)
  ultimately show ?case by simp
qed

text \<open>
  Where the old value is not \<open>$\<close> and no occurrence of it starts in the line before
  the value token, the patch attempt replaces the token and nothing else.
\<close>

lemma tryPatchExport_value_token:
  assumes "indexOf src (idStr (patch_expressID p) @ ''='') 0 = Some lineStart"
    and "indexOf src '';'' lineStart = Some lineEnd"
    and "oldValue p \<noteq> ''$''"
    and "substring src lineStart (lineEnd + 1) = pre @ oldValue p @ post"
    and "\<not> sublist (oldValue p) (pre @ butlast (oldValue p))"
  shows "src = take lineStart src @ pre @ oldValue p @ post @ drop (lineEnd + 1) src
    \<and> tryPatchExport src [p]
        = Some (take lineStart src @ pre @ newValue p @ post @ drop (lineEnd + 1) src)"
proof -
  let ?line = "substring src lineStart (lineEnd + 1)"
  from assms(5) have "index_from (oldValue p) (pre @ oldValue p @ post) = Some (length pre)"
    by (rule index_from_token)
  with assms(4) have k: "indexOf ?line (oldValue p) 0 = Some (length pre)"
    by (simp add: indexOf_def)
  note found = patch_step_found [OF assms(1,2,3) k]
  from found(2,3) have line: "?line = take (lineEnd + 1 - lineStart) (drop lineStart src)"
    by (simp add: substring_def)
  from found(2,3) have src: "src = take lineStart src @ ?line @ drop (lineEnd + 1) src"
    unfolding line by (metis append_take_drop_id drop_drop le_add_diff_inverse2 add.commute
        less_imp_le_nat Suc_eq_plus1 Suc_leI le_SucI)
  define L where "L = take lineStart src"
  define R where "R = drop (lineEnd + 1) src"
  have lL: "length (L @ pre) = lineStart + length pre"
    using found(2,3) by (simp add: L_def)
  from src assms(4) have src': "src = (L @ pre) @ oldValue p @ post @ R"
    by (simp add: L_def R_def)
  then have t: "take (length (L @ pre)) src = L @ pre"
    and d: "drop (length (L @ pre)) src = oldValue p @ post @ R"
    by (metis append_eq_conv_conj)+
  from d have "drop (length (oldValue p)) (drop (length (L @ pre)) src) = post @ R"
    by simp
  then have d': "drop (lineStart + length pre + length (oldValue p)) src = post @ R"
    by (simp only: drop_drop lL add.commute)
  from found(1) t d' have "tryPatchExport src [p] = Some ((L @ pre) @ newValue p @ post @ R)"
    by (simp only: lL tryPatchExport.simps option.case)
  with src' show ?thesis
    by (simp add: L_def R_def)
qed

text \<open>The fire rating \<open>2HR\<close> becomes \<open>1HR\<close> in the first record only.\<close>

lemma tryPatchExport_value_token_example:
  "tryPatchExport two_lines [ref_patch ''2HR'' ''1HR'']
     = Some ''#12=IFCPROPERTYSINGLEVALUE('FireRating',$,IFCLABEL('1HR'),$);#13=IFCLABEL('2HR');''"
proof -
  let ?p = "ref_patch ''2HR'' ''1HR''"
  let ?pre = "''#12=IFCPROPERTYSINGLEVALUE('FireRating',$,IFCLABEL('' @ [CHR 0x27]"
  let ?post = "[CHR 0x27] @ ''),$);''"
  have h1: "indexOf two_lines (idStr (patch_expressID ?p) @ ''='') 0 = Some 0"
    by code_simp
  have h2: "indexOf two_lines '';'' 0 = Some 60"
    by code_simp
  have h3: "oldValue ?p \<noteq> ''$''"
    by (simp add: ref_patch_def)
  have h4: "substring two_lines 0 (60 + 1) = ?pre @ oldValue ?p @ ?post"
    by code_simp
  have h5: "\<not> sublist (oldValue ?p) (?pre @ butlast (oldValue ?p))"
    by code_simp
  from tryPatchExport_value_token [OF h1 h2 h3 h4 h5] show ?thesis
    by (simp add: two_lines_def ref_patch_def)
qed

text \<open>
  Claim C4 says that a single patch whose old value occurs in the located line succeeds and
  changes the text at the value token only.  \<open>tryPatchExport\<close> searches the old value
  from the start of the line, and the line starts with the record id.  In the file below
  the count \<open>1\<close> is to become \<open>5\<close>: the old value is first found in the id
  \<open>#12\<close>, the patch attempt succeeds, and the export has the record \<open>#52\<close> with
  the count still \<open>1\<close>.
\<close>

theorem tryPatchExport_record_id_changed:
  "collectModifiedProperties count_state = [count_patch]
   \<and> located_line count_text (patch_expressID count_patch)
       = Some ''#12=IFCPROPERTYSINGLEVALUE('Count',$,IFCINTEGER(1),$);''
   \<and> tryPatchExport count_text [count_patch]
       = Some ''ISO-10303-21;HEADER;FILE_SCHEMA(('IFC4'));ENDSEC;DATA;#52=IFCPROPERTYSINGLEVALUE('Count',$,IFCINTEGER(1),$);ENDSEC;END-ISO-10303-21;''
   \<and> exportModifiedIfc False count_state
       = Inr ''ISO-10303-21;HEADER;FILE_SCHEMA(('IFC4'));ENDSEC;DATA;#52=IFCPROPERTYSINGLEVALUE('Count',$,IFCINTEGER(1),$);ENDSEC;END-ISO-10303-21;''"
  by code_simp

section \<open>Issue ids\<close>

lemma digit_char_inj:
  assumes "0 \<le> a" "a < 10" "0 \<le> b" "b < 10" "digit_char a = digit_char b"
  shows "a = b"
proof -
  have "distinct ''0123456789''" by simp
  moreover have "nat a < length ''0123456789''" "nat b < length ''0123456789''"
    using assms by simp_all
  ultimately have "nat a = nat b"
    using assms(5) unfolding digit_char_def by (simp only: nth_eq_iff_index_eq)
  with assms show ?thesis by simp
qed

lemma digit_char_digit: "0 \<le> d \<Longrightarrow> d < 10 \<Longrightarrow> digit_char d \<in> set ''0123456789''"
  unfolding digit_char_def by (rule nth_mem) simp

lemma dec_digits_digits: "0 \<le> n \<Longrightarrow> set (dec_digits n) \<subseteq> set ''0123456789''"
proof (induction n rule: dec_digits.induct)
  case (1 n)
  show ?case
  proof (cases "n < 10")
    case True
    with "1.prems" digit_char_digit [of n] show ?thesis
      by (subst dec_digits.simps) simp
  next
    case False
    with "1.prems" have "0 \<le> n div 10" "0 \<le> n mod 10" "n mod 10 < 10" by simp_all
    with "1.IH" False digit_char_digit [of "n mod 10"] show ?thesis
      by (subst dec_digits.simps) simp
  qed
qed

lemma dec_digits_no_hyphen: "0 \<le> n \<Longrightarrow> CHR ''-'' \<notin> set (dec_digits n)"
  using dec_digits_digits [of n] by auto

lemma dec_digits_length: "length (dec_digits n) = 1 \<longleftrightarrow> n < 10"
proof (cases "n < 10")
  case True
  then show ?thesis by (subst dec_digits.simps) simp
next
  case False
  have "dec_digits (n div 10) \<noteq> []"
    by (subst dec_digits.simps) simp
  with False show ?thesis by (subst dec_digits.simps) simp
qed

lemma dec_digits_inj: "0 \<le> n \<Longrightarrow> 0 \<le> m \<Longrightarrow> dec_digits n = dec_digits m \<Longrightarrow> n = m"
proof (induction n arbitrary: m rule: dec_digits.induct)
  case (1 n)
  from "1.prems"(3) have len: "n < 10 \<longleftrightarrow> m < 10"
    using dec_digits_length [of n] dec_digits_length [of m] by simp
  show ?case
  proof (cases "n < 10")
    case True
    with len "1.prems" have "digit_char n = digit_char m"
      by (simp add: dec_digits.simps [of n] dec_digits.simps [of m])
    with True len "1.prems" show ?thesis by (intro digit_char_inj) simp_all
  next
    case False
    with len "1.prems"(3) have eq: "dec_digits (n div 10) = dec_digits (m div 10)"
      "digit_char (n mod 10) = digit_char (m mod 10)"
      by (simp_all add: dec_digits.simps [of n] dec_digits.simps [of m])
    from "1.IH" [OF False _ _ eq(1)] "1.prems" have "n div 10 = m div 10" by simp
    moreover from eq(2) have "n mod 10 = m mod 10"
      by (intro digit_char_inj) simp_all
    ultimately show ?thesis by (metis div_mult_mod_eq)
  qed
qed

lemma split_first:
  "c \<notin> set x \<Longrightarrow> c \<notin> set x' \<Longrightarrow> x @ c # y = x' @ c # y' \<Longrightarrow> x = x' \<and> y = y'"
proof (induction x arbitrary: x')
  case Nil
  then show ?case by (cases x') auto
next
  case (Cons a x)
  then show ?case by (cases x') auto
qed

lemma split_last:
  assumes "c \<notin> set y" "c \<notin> set y'" "x @ c # y = x' @ c # y'"
  shows "x = x' \<and> y = y'"
proof -
  from assms(3) have "rev (x @ c # y) = rev (x' @ c # y')" by simp
  then have "rev y @ c # rev x = rev y' @ c # rev x'" by simp
  with assms(1,2) have "rev y = rev y' \<and> rev x = rev x'"
    by (intro split_first) simp_all
  then show ?thesis by simp
qed

lemma issue_id_of_inj:
  assumes "(CHR ''-'' \<notin> set r1 \<and> CHR ''-'' \<notin> set r2) \<or> (CHR ''-'' \<notin> set p1 \<and> CHR ''-'' \<notin> set p2)"
    and "issue_id_of e1 r1 p1 = issue_id_of e2 r2 p2"
  shows "e1 = e2 \<and> r1 = r2 \<and> p1 = p2"
proof -
  let ?d1 = "dec_digits (int e1)" and ?d2 = "dec_digits (int e2)"
  have d: "CHR ''-'' \<notin> set ?d1" "CHR ''-'' \<notin> set ?d2"
    by (simp_all add: dec_digits_no_hyphen)
  from assms(2) have eq: "?d1 @ CHR ''-'' # (r1 @ CHR ''-'' # p1) = ?d2 @ CHR ''-'' # (r2 @ CHR ''-'' # p2)"
    by (simp add: issue_id_of_def)
  have "?d1 = ?d2 \<and> r1 = r2 \<and> p1 = p2"
    using assms(1)
  proof
    assume r: "CHR ''-'' \<notin> set r1 \<and> CHR ''-'' \<notin> set r2"
    from split_first [OF d eq] have "?d1 = ?d2" "r1 @ CHR ''-'' # p1 = r2 @ CHR ''-'' # p2"
      by simp_all
    with r split_first [of "CHR ''-''" r1 r2 p1 p2] show ?thesis by simp
  next
    assume p: "CHR ''-'' \<notin> set p1 \<and> CHR ''-'' \<notin> set p2"
    from eq have "(?d1 @ CHR ''-'' # r1) @ CHR ''-'' # p1 = (?d2 @ CHR ''-'' # r2) @ CHR ''-'' # p2"
      by simp
    with p have "?d1 @ CHR ''-'' # r1 = ?d2 @ CHR ''-'' # r2" "p1 = p2"
      using split_last [of "CHR ''-''" p1 p2 "?d1 @ CHR ''-'' # r1" "?d2 @ CHR ''-'' # r2"] by simp_all
    with split_first [OF d, of r1 r2] show ?thesis by simp
  qed
  moreover have "?d1 = ?d2 \<Longrightarrow> e1 = e2"
    using dec_digits_inj [of "int e1" "int e2"] by simp
  ultimately show ?thesis by simp
qed

lemma check_value_id:
  "i \<in> set (check_value rt element r req v ct) \<Longrightarrow>
     i = make_issue element r req (issueType i) (issue_expected i) (actual i) (suggestedFix i)"
  by (cases ct) (auto simp: make_issue_def Let_def split: if_splits option.splits)

lemma check_requirement_id:
  "i \<in> set (check_requirement rt element r req) \<Longrightarrow>
     i = make_issue element r req (issueType i) (issue_expected i) (actual i) (suggestedFix i)"
  unfolding check_requirement_def
  by (auto split: option.splits if_splits dest: check_value_id simp: make_issue_def)


text \<open>
  Claim C8, as amended.  Every issue that \<open>checkElement\<close> emits has the id
  \<open><expressID>-<ruleId>-<propertyName>\<close>, built from the element's express id, the
  rule's id and the property name of one of the rule's requirements.  Two triples whose
  rule ids are free of hyphens, or whose property names are free of hyphens, give the same
  id only if they are the same triple.
\<close>

theorem issue_ids:
  "(\<forall>i \<in> set (checkElement rt element r).
      \<exists>req \<in> set (requirements r).
        issue_id i = issue_id_of (ve_expressID element) (rule_id r) (req_propertyName req)
        \<and> issue_expressID i = ve_expressID element \<and> ruleId i = rule_id r)
   \<and> ((CHR ''-'' \<notin> set r1 \<and> CHR ''-'' \<notin> set r2) \<or> (CHR ''-'' \<notin> set p1 \<and> CHR ''-'' \<notin> set p2)
        \<longrightarrow> (issue_id_of e1 r1 p1 = issue_id_of e2 r2 p2 \<longleftrightarrow> e1 = e2 \<and> r1 = r2 \<and> p1 = p2))"
proof (intro conjI ballI impI)
  fix i
  assume "i \<in> set (checkElement rt element r)"
  then obtain req where req: "req \<in> set (requirements r)" "i \<in> set (check_requirement rt element r req)"
    by (auto simp: checkElement_def split: if_splits)
  from check_requirement_id [OF req(2)]
  have "issue_id i = issue_id_of (ve_expressID element) (rule_id r) (req_propertyName req)
        \<and> issue_expressID i = ve_expressID element \<and> ruleId i = rule_id r"
    by (metis (no_types, lifting) make_issue_def issue_id_of_def ValidationIssue.select_convs(1,5,10)
        append_Cons append_Nil)
  with req(1) show "\<exists>req \<in> set (requirements r).
        issue_id i = issue_id_of (ve_expressID element) (rule_id r) (req_propertyName req)
        \<and> issue_expressID i = ve_expressID element \<and> ruleId i = rule_id r"
    by blast
next
  assume "(CHR ''-'' \<notin> set r1 \<and> CHR ''-'' \<notin> set r2) \<or> (CHR ''-'' \<notin> set p1 \<and> CHR ''-'' \<notin> set p2)"
  then show "issue_id_of e1 r1 p1 = issue_id_of e2 r2 p2 \<longleftrightarrow> e1 = e2 \<and> r1 = r2 \<and> p1 = p2"
    using issue_id_of_inj [of r1 r2 p1 p2 e1 e2] by blast
qed


text \<open>A wall without property sets under the first and the second rule for walls.\<close>

theorem issue_ids_witness:
  "map issue_id (checkElement null_runtime bare_element
      (rule_of ''sg-wall-001'' [requirement_of ''Pset_WallCommon'' ''FireRating'' CheckNotEmpty]))
     = [''7-sg-wall-001-FireRating'']
   \<and> issue_id_of 7 ''sg-wall-001'' ''FireRating'' = ''7-sg-wall-001-FireRating''
   \<and> issue_id_of 7 ''sg-wall-001'' ''FireRating'' \<noteq> issue_id_of 7 ''sg-wall-002'' ''FireRating''"
proof -
  have "map issue_id (checkElement null_runtime bare_element
      (rule_of ''sg-wall-001'' [requirement_of ''Pset_WallCommon'' ''FireRating'' CheckNotEmpty]))
     = [''7-sg-wall-001-FireRating'']"
    by code_simp
  moreover have "issue_id_of 7 ''sg-wall-001'' ''FireRating'' = ''7-sg-wall-001-FireRating''"
    by code_simp
  moreover have "CHR ''-'' \<notin> set ''FireRating''" by simp
  then have "issue_id_of 7 ''sg-wall-001'' ''FireRating'' \<noteq> issue_id_of 7 ''sg-wall-002'' ''FireRating''"
    using issue_ids [of null_runtime bare_element "rule_of [] []" "''sg-wall-001''" "''sg-wall-002''"
        "''FireRating''" "''FireRating''" 7 7]
    by simp
  ultimately show ?thesis by simp
qed

text \<open>
  The claim as stated fails where a hyphen can be read as part of the rule id or of the
  property name: one run, two rules, two different triples, one id.
\<close>

theorem issue_ids_counterexample:
  "map issue_id (issues (runValidation null_runtime
      \<lparr>request_elements = [bare_element],
       request_rules = [rule_of ''sg-wall'' [requirement_of ''Pset_WallCommon'' ''001-FireRating'' CheckExists],
                        rule_of ''sg-wall-001'' [requirement_of ''Pset_WallCommon'' ''FireRating'' CheckExists]],
       rulePackName = ''pack'', rulePackVersion = ''1.0'', modelName = ''model.ifc'', schema = ''IFC4''\<rparr>))
     = [''7-sg-wall-001-FireRating'', ''7-sg-wall-001-FireRating'']
   \<and> (ve_expressID bare_element, ''sg-wall'', ''001-FireRating'')
       \<noteq> (ve_expressID bare_element, ''sg-wall-001'', ''FireRating'')"
  by code_simp

section \<open>Value formatting\<close>

lemma dec_digits_nonempty: "dec_digits n \<noteq> []"
  by (subst dec_digits.simps) simp

lemma length_low_digits: "length (low_digits j n) = j"
  by (induction j arbitrary: n) simp_all

lemma dec_digits_split:
  "10 ^ j \<le> n \<Longrightarrow> dec_digits n = dec_digits (n div 10 ^ j) @ low_digits j n"
proof (induction j arbitrary: n)
  case 0
  then show ?case by simp
next
  case (Suc j)
  have "(10::int) * 1 \<le> 10 * 10 ^ j"
    by (intro mult_left_mono) simp_all
  moreover from Suc.prems have "10 * 10 ^ j \<le> n" by simp
  ultimately have n: "10 \<le> n" by linarith
  from Suc.prems have "10 ^ j \<le> n div 10" by simp
  from Suc.IH [OF this] have "dec_digits (n div 10) = dec_digits (n div 10 ^ Suc j) @ low_digits j (n div 10)"
    by (simp add: zdiv_zmult2_eq)
  with n show ?case
    by (subst dec_digits.simps) simp
qed

lemma low_digits_zero: "low_digits j 0 = replicate j CHR ''0''"
  by (induction j) (simp_all add: digit_char_def replicate_append_same)

lemma dec_digits_pad:
  "0 \<le> n \<Longrightarrow> n < 10 ^ Suc j
     \<Longrightarrow> length (dec_digits n) \<le> Suc j
         \<and> replicate (Suc j - length (dec_digits n)) CHR ''0'' @ dec_digits n = low_digits (Suc j) n"
proof (induction j arbitrary: n)
  case 0
  then have "dec_digits n = [digit_char n]" by (subst dec_digits.simps) simp
  with "0.prems" show ?case by simp
next
  case (Suc j)
  show ?case
  proof (cases "n < 10")
    case True
    then have "dec_digits n = [digit_char n]" by (subst dec_digits.simps) simp
    with True Suc.prems show ?thesis
      by (simp add: low_digits_zero replicate_append_same)
  next
    case False
    with Suc.prems have "0 \<le> n div 10" "n div 10 < 10 ^ Suc j" by simp_all
    from False have "dec_digits n = dec_digits (n div 10) @ [digit_char (n mod 10)]"
      by (subst dec_digits.simps) simp
    with Suc.IH [OF \<open>0 \<le> n div 10\<close> \<open>n div 10 < 10 ^ Suc j\<close>] show ?thesis
      by simp
  qed
qed

lemma fixed_digits_split:
  assumes "0 \<le> n"
  shows "(let m = dec_digits n;
              m' = (if length m \<le> 6 then replicate (6 + 1 - length m) CHR ''0'' @ m else m);
              k = length m'
          in take (k - 6) m' @ ''.'' @ drop (k - 6) m')
         = dec_digits (n div 10 ^ 6) @ ''.'' @ low_digits 6 n"
proof (cases "n < 10 ^ 6")
  case True
  with assms dec_digits_pad [of n 5] have len: "length (dec_digits n) \<le> 6"
    and pad: "replicate (6 - length (dec_digits n)) CHR ''0'' @ dec_digits n = low_digits 6 n"
    by (simp_all add: eval_nat_numeral)
  from len have "replicate (7 - length (dec_digits n)) CHR ''0''
      = CHR ''0'' # replicate (6 - length (dec_digits n)) CHR ''0''"
    by (simp add: Suc_diff_le flip: replicate_Suc)
  with pad have "replicate (7 - length (dec_digits n)) CHR ''0'' @ dec_digits n = CHR ''0'' # low_digits 6 n"
    by simp
  moreover from True assms have "dec_digits (n div 10 ^ 6) = ''0''"
    by (subst dec_digits.simps) (simp add: digit_char_def)
  ultimately show ?thesis
    using len by (simp add: Let_def length_low_digits)
next
  case False
  then have split: "dec_digits n = dec_digits (n div 10 ^ 6) @ low_digits 6 n"
    by (intro dec_digits_split) simp
  then have "length (dec_digits n) = length (dec_digits (n div 10 ^ 6)) + 6"
    by (simp add: length_low_digits)
  moreover have "length (dec_digits (n div 10 ^ 6)) > 0"
    using dec_digits_nonempty by simp
  ultimately show ?thesis
    using split by (simp add: Let_def length_low_digits)
qed

lemma toFixed_digits_6:
  assumes "0 \<le> x"
  shows "toFixed_digits x 6 = dec_digits (\<lfloor>x * 10 ^ 6 + 1 / 2\<rfloor> div 10 ^ 6) @ ''.''
           @ low_digits 6 \<lfloor>x * 10 ^ 6 + 1 / 2\<rfloor>"
proof -
  from assms have "0 \<le> \<lfloor>x * 10 ^ 6 + 1 / 2\<rfloor>" by simp
  from fixed_digits_split [OF this] show ?thesis
    by (simp add: toFixed_digits_def Let_def)
qed


lemma low_digits_digits: "0 \<le> n \<Longrightarrow> set (low_digits j n) \<subseteq> set ''0123456789''"
proof (induction j arbitrary: n)
  case 0
  then show ?case by simp
next
  case (Suc j)
  from Suc.prems have "0 \<le> n div 10" "0 \<le> n mod 10" "n mod 10 < 10" by simp_all
  with Suc.IH [of "n div 10"] digit_char_digit [of "n mod 10"] show ?case by simp
qed

lemma trailing_zeros_after_dot:
  "replace_trailing_zeros (pre @ CHR ''.'' # f)
     = pre @ CHR ''.'' # rev (dropWhile (\<lambda>c. c = CHR ''0'') (rev f))"
proof -
  have "dropWhile (\<lambda>c. c = CHR ''0'') (rev f @ CHR ''.'' # rev pre)
        = dropWhile (\<lambda>c. c = CHR ''0'') (rev f) @ CHR ''.'' # rev pre"
    by (simp add: dropWhile_append)
  then show ?thesis by (simp add: replace_trailing_zeros_def)
qed

lemma final_dot_after_digits:
  assumes "CHR ''.'' \<notin> set t"
  shows "replace_final_dot (pre @ CHR ''.'' # t) = pre @ CHR ''.'' # (if t = [] then ''0'' else t)"
proof (cases "t = []")
  case True
  then show ?thesis by (simp add: replace_final_dot_def butlast_append)
next
  case False
  with assms have "last t \<noteq> CHR ''.''" using last_in_set by metis
  with False show ?thesis by (simp add: replace_final_dot_def)
qed

lemma trimmed_fraction:
  assumes "CHR ''.'' \<notin> set f"
  shows "replace_final_dot (replace_trailing_zeros (pre @ CHR ''.'' # f))
           = pre @ CHR ''.'' # trim_fraction f"
proof -
  let ?t = "rev (dropWhile (\<lambda>c. c = CHR ''0'') (rev f))"
  have "set ?t \<subseteq> set f" using set_dropWhileD by fastforce
  with assms have "CHR ''.'' \<notin> set ?t" by auto
  moreover have "?t = [] \<longleftrightarrow> list_all (\<lambda>c. c = CHR ''0'') f"
    by (simp add: dropWhile_eq_Nil_conv list_all_iff)
  ultimately show ?thesis
    by (simp add: trailing_zeros_after_dot final_dot_after_digits trim_fraction_def)
qed

lemma floor_cancel_Ints: "of_int \<lfloor>x\<rfloor> = x \<longleftrightarrow> x \<in> \<int>"
  by (metis Ints_of_int of_int_floor)

lemma format_nonintegral:
  assumes "x \<notin> \<int>" and "\<bar>x\<bar> < 10 ^ 21"
  shows "formatIfcValue (VNum (Finite x)) = fixed_point x"
proof -
  define n where "n = \<lfloor>\<bar>x\<bar> * 10 ^ 6 + 1 / 2\<rfloor>"
  define pre where "pre = (if x < 0 then ''-'' else []) @ dec_digits (n div 10 ^ 6)"
  have n0: "0 \<le> n" by (simp add: n_def)
  from assms(1) have "of_int \<lfloor>x\<rfloor> \<noteq> x"
    by (simp only: floor_cancel_Ints not_False_eq_True)
  then have "\<not> isInteger (Finite x)"
    by (simp only: isInteger.simps not_False_eq_True)
  moreover from assms(2) have "toFixed (Finite x) 6 = pre @ CHR ''.'' # low_digits 6 n"
    using toFixed_digits_6 [of "\<bar>x\<bar>"] by (simp add: pre_def n_def)
  moreover have "CHR ''.'' \<notin> set (low_digits 6 n)"
    using low_digits_digits [OF n0, of 6] by auto
  ultimately have "formatIfcValue (VNum (Finite x)) = pre @ CHR ''.'' # trim_fraction (low_digits 6 n)"
    by (simp add: trimmed_fraction)
  then show ?thesis
    by (simp add: fixed_point_def Let_def pre_def n_def)
qed

lemma bit_length_bounds: "0 < m \<Longrightarrow> 2 ^ (bit_length m - 1) \<le> m \<and> m < 2 ^ bit_length m"
proof (induction m rule: bit_length.induct)
  case (1 n)
  show ?case
  proof (cases "n div 2 \<le> 0")
    case True
    with "1.prems" have n: "n = 1" by arith
    have "bit_length (1 div 2) = 0" by (subst bit_length.simps) simp
    then have "bit_length 1 = 1" by (subst bit_length.simps) simp
    with n show ?thesis by simp
  next
    case False
    then have pos: "0 < n div 2" by simp
    with "1.prems" "1.IH" have ih: "2 ^ (bit_length (n div 2) - 1) \<le> n div 2" "n div 2 < 2 ^ bit_length (n div 2)"
      by simp_all
    have bl: "bit_length n = Suc (bit_length (n div 2))"
      using "1.prems" by (subst bit_length.simps) simp
    have "0 < bit_length (n div 2)"
      using pos by (subst bit_length.simps) simp
    then obtain b where b: "bit_length (n div 2) = Suc b" by (cases "bit_length (n div 2)") auto
    from ih(1) b have "2 * 2 ^ b \<le> n" by simp
    moreover from ih(2) have "n < 2 * 2 ^ bit_length (n div 2)" by arith
    ultimately show ?thesis by (simp add: bl b)
  qed
qed

lemma round_to_double_lower:
  assumes "53 < bit_length m"
  shows "2 ^ (bit_length m - 1) \<le> round_to_double m"
proof -
  define sh where "sh = bit_length m - 53"
  define q where "q = m div 2 ^ sh"
  define P :: int where "P = 2 ^ 52"
  have m: "0 < m"
  proof (rule ccontr)
    assume "\<not> 0 < m"
    then have "bit_length m = 0" by (subst bit_length.simps) simp
    with assms show False by simp
  qed
  from assms have bl: "bit_length m - 1 = 52 + sh" by (simp add: sh_def)
  have low: "(2::int) ^ (52 + sh) = P * 2 ^ sh"
    unfolding P_def by (rule power_add)
  from bit_length_bounds [OF m] have "P * 2 ^ sh \<le> m"
    by (simp only: bl low)
  then have "P * 2 ^ sh div 2 ^ sh \<le> m div 2 ^ sh"
    by (intro zdiv_mono1) simp_all
  then have "P \<le> q"
    by (simp add: q_def)
  then have "P * 2 ^ sh \<le> q * 2 ^ sh"
    by (intro mult_right_mono) simp_all
  moreover have "q * 2 ^ sh \<le> round_to_double m"
    using assms by (simp add: round_to_double_def Let_def sh_def q_def)
  ultimately show ?thesis by (simp only: bl low)
qed

lemma round_to_double_safe:
  assumes "x < 2 ^ 53" and "round_to_double m = x"
  shows "m = x"
proof (cases "bit_length m \<le> 53")
  case True
  with assms(2) show ?thesis by (simp add: round_to_double_def)
next
  case False
  then have "53 < bit_length m" by simp
  from round_to_double_lower [OF this] assms(2) have "2 ^ (bit_length m - 1) \<le> x" by simp
  moreover have "(2::int) ^ 53 \<le> 2 ^ (bit_length m - 1)"
    using False by (intro power_increasing) simp_all
  ultimately show ?thesis using assms(1) by linarith
qed

lemma dec_digits_shift: "1 \<le> s \<Longrightarrow> dec_digits (s * 10 ^ j) = dec_digits s @ replicate j CHR ''0''"
proof (induction j)
  case 0
  then show ?case by simp
next
  case (Suc j)
  have "(1::int) \<le> 10 ^ j" by simp
  with Suc.prems have "1 * 1 \<le> s * 10 ^ j" by (intro mult_mono) simp_all
  then have "\<not> s * 10 ^ j * 10 < 10" by simp
  then have "dec_digits (s * 10 ^ j * 10)
       = dec_digits (s * 10 ^ j * 10 div 10) @ [digit_char (s * 10 ^ j * 10 mod 10)]"
    by (subst dec_digits.simps) simp
  with Suc show ?case
    by (simp add: mult.assoc digit_char_def replicate_append_same mult.commute mult.left_commute)
qed

lemma dec_digits_length_range:
  "10 ^ k \<le> s \<Longrightarrow> s < 10 ^ Suc k \<Longrightarrow> length (dec_digits s) = Suc k"
proof (induction k arbitrary: s)
  case 0
  then show ?case by (subst dec_digits.simps) simp
next
  case (Suc k)
  from Suc.prems have "10 ^ k \<le> s div 10" "s div 10 < 10 ^ Suc k" by simp_all
  from Suc.IH [OF this] have "length (dec_digits (s div 10)) = Suc k" .
  moreover have "\<not> s < 10"
  proof -
    have "(1::int) \<le> 10 ^ k" by simp
    moreover from Suc.prems(1) have "10 * 10 ^ k \<le> s" by simp
    ultimately show ?thesis by linarith
  qed
  ultimately show ?case by (subst dec_digits.simps) simp
qed

lemma least_candidate_member: "least_candidate cs = Some c \<Longrightarrow> c \<in> set cs"
  by (induction cs arbitrary: c) (auto split: option.splits if_splits)

lemma shortest_candidates_sound:
  assumes "c \<in> set (shortest_candidates x k)"
  shows "k \<le> snd (snd (snd c)) \<and> 10 ^ (k - 1) \<le> fst (snd (snd c)) \<and> fst (snd (snd c)) < 10 ^ k
         \<and> round_to_double (fst (snd (snd c)) * 10 ^ (snd (snd (snd c)) - k)) = x
         \<and> snd (snd (snd c)) \<le> length (dec_digits x) + 1"
  using assms by (auto simp: shortest_candidates_def split: if_splits)

lemma dec_digits_length_le: "0 \<le> n \<Longrightarrow> n < 10 ^ Suc j \<Longrightarrow> length (dec_digits n) \<le> Suc j"
  using dec_digits_pad [of n j] by simp

lemma shortest_digits_safe:
  assumes "0 < x" and "x < 2 ^ 53"
  shows "shortest_digits x k fuel = (s, n) \<Longrightarrow>
           length (dec_digits s) \<le> n
           \<and> dec_digits s @ replicate (n - length (dec_digits s)) CHR ''0'' = dec_digits x"
proof (induction fuel arbitrary: k)
  case 0
  then show ?case by auto
next
  case (Suc fuel)
  show ?case
  proof (cases "least_candidate (shortest_candidates x k)")
    case None
    with Suc.prems have "shortest_digits x (Suc k) fuel = (s, n)" by simp
    then show ?thesis by (rule Suc.IH)
  next
    case (Some c)
    with Suc.prems have c: "fst (snd (snd c)) = s" "snd (snd (snd c)) = n" by simp_all
    from Some have "c \<in> set (shortest_candidates x k)" by (rule least_candidate_member)
    from shortest_candidates_sound [OF this] c
    have kn: "k \<le> n" and lo: "10 ^ (k - 1) \<le> s" and hi: "s < 10 ^ k"
      and r: "round_to_double (s * 10 ^ (n - k)) = x"
      by simp_all
    from round_to_double_safe [OF assms(2) r] have x: "x = s * 10 ^ (n - k)" by simp
    have k: "0 < k"
    proof (rule ccontr)
      assume "\<not> 0 < k"
      with lo hi show False by simp
    qed
    then obtain j where j: "k = Suc j" by (cases k) auto
    from lo hi have len: "length (dec_digits s) = k"
      unfolding j by (intro dec_digits_length_range) simp_all
    have "(0::int) < 10 ^ (k - 1)" by simp
    with lo have "1 \<le> s" by linarith
    then have "dec_digits (s * 10 ^ (n - k)) = dec_digits s @ replicate (n - k) CHR ''0''"
      by (rule dec_digits_shift)
    with kn len x show ?thesis by simp
  qed
qed

lemma integer_digits_safe:
  assumes "0 < x" and "x < 2 ^ 53"
  shows "integer_digits x = dec_digits x"
proof -
  obtain s n where sn: "shortest_digits x 1 17 = (s, n)" by (cases "shortest_digits x 1 17")
  from shortest_digits_safe [OF assms sn]
  have kn: "length (dec_digits s) \<le> n"
    and d: "dec_digits s @ replicate (n - length (dec_digits s)) CHR ''0'' = dec_digits x"
    by simp_all
  from assms have "x < 10 ^ Suc 20" by simp
  with assms(1) have "length (dec_digits x) \<le> Suc 20"
    by (intro dec_digits_length_le) simp_all
  moreover from d kn have "length (dec_digits x) = n"
    by (metis length_append length_replicate le_add_diff_inverse)
  ultimately have "n \<le> 21" by simp
  with sn kn d show ?thesis by (simp add: integer_digits_def Let_def)
qed

lemma format_integral:
  assumes "\<bar>i\<bar> < 2 ^ 53"
  shows "formatIfcValue (VNum (Finite (of_int i))) = decimal i"
proof (cases "i = 0")
  case True
  have "dec_digits 0 = ''0''" by (subst dec_digits.simps) (simp add: digit_char_def)
  with True show ?thesis by (simp add: integer_toString_def decimal_def)
next
  case False
  then have "0 < \<bar>i\<bar>" by simp
  from integer_digits_safe [OF this assms] False show ?thesis
    by (simp add: integer_toString_def decimal_def)
qed


lemma round_to_double_floor:
  assumes "53 < bit_length m"
  shows "m div 2 ^ (bit_length m - 53) * 2 ^ (bit_length m - 53) \<le> round_to_double m"
  using assms by (simp add: round_to_double_def Let_def)

lemma round_to_double_large:
  assumes "10 ^ 21 \<le> m"
  shows "10 ^ 21 \<le> round_to_double m"
proof -
  from assms have m: "0 < m" by simp
  have bl: "70 \<le> bit_length m"
  proof (rule ccontr)
    assume "\<not> 70 \<le> bit_length m"
    then have "bit_length m \<le> 69" by simp
    then have "(2::int) ^ bit_length m \<le> 2 ^ 69" by (intro power_increasing) simp_all
    with bit_length_bounds [OF m] have "m < 2 ^ 69" by linarith
    with assms show False by simp
  qed
  show ?thesis
  proof (cases "bit_length m = 70")
    case True
    then have "m div 2 ^ 17 * 2 ^ 17 \<le> round_to_double m"
      using round_to_double_floor [of m] by simp
    moreover from assms have "10 ^ 21 div 2 ^ 17 \<le> m div 2 ^ 17"
      by (intro zdiv_mono1) simp_all
    then have "(10 ^ 21 div 2 ^ 17) * 2 ^ 17 \<le> m div 2 ^ 17 * 2 ^ 17"
      by (intro mult_right_mono) simp_all
    moreover have "((10::int) ^ 21 div 2 ^ 17) * 2 ^ 17 = 10 ^ 21" by simp
    ultimately show ?thesis by linarith
  next
    case False
    with bl have "71 \<le> bit_length m" by simp
    then have "(2::int) ^ 70 \<le> 2 ^ (bit_length m - 1)"
      by (intro power_increasing) simp_all
    moreover from bl have "2 ^ (bit_length m - 1) \<le> round_to_double m"
      by (intro round_to_double_lower) simp
    ultimately have "2 ^ 70 \<le> round_to_double m" by linarith
    then show ?thesis by simp
  qed
qed

lemma shortest_digits_reads_back:
  assumes "0 < x" and "x < 10 ^ 21" and "round_to_double x = x"
  shows "shortest_digits x k fuel = (s, n) \<Longrightarrow>
           1 \<le> s \<and> length (dec_digits s) \<le> n \<and> n \<le> 21
           \<and> round_to_double (s * 10 ^ (n - length (dec_digits s))) = x"
proof (induction fuel arbitrary: k)
  case 0
  from assms(1,2) have "length (dec_digits x) \<le> Suc 20"
    by (intro dec_digits_length_le) simp_all
  with 0 assms(1,3) show ?case by auto
next
  case (Suc fuel)
  show ?case
  proof (cases "least_candidate (shortest_candidates x k)")
    case None
    with Suc.prems have "shortest_digits x (Suc k) fuel = (s, n)" by simp
    then show ?thesis by (rule Suc.IH)
  next
    case (Some c)
    with Suc.prems have c: "fst (snd (snd c)) = s" "snd (snd (snd c)) = n" by simp_all
    from Some have "c \<in> set (shortest_candidates x k)" by (rule least_candidate_member)
    from shortest_candidates_sound [OF this] c
    have kn: "k \<le> n" and lo: "10 ^ (k - 1) \<le> s" and hi: "s < 10 ^ k"
      and r: "round_to_double (s * 10 ^ (n - k)) = x"
      by simp_all
    have k: "0 < k"
    proof (rule ccontr)
      assume "\<not> 0 < k"
      with lo hi show False by simp
    qed
    then obtain j where j: "k = Suc j" by (cases k) auto
    from lo hi have len: "length (dec_digits s) = k"
      unfolding j by (intro dec_digits_length_range) simp_all
    have "(0::int) < 10 ^ (k - 1)" by simp
    with lo have s: "1 \<le> s" by linarith
    have "n \<le> 21"
    proof (rule ccontr)
      assume "\<not> n \<le> 21"
      then have n: "21 \<le> n - 1" by simp
      from lo have "10 ^ (k - 1) * 10 ^ (n - k) \<le> s * 10 ^ (n - k)"
        by (intro mult_right_mono) simp_all
      moreover from kn k have "(10::int) ^ (k - 1) * 10 ^ (n - k) = 10 ^ (n - 1)"
        by (simp flip: power_add)
      moreover from n have "(10::int) ^ 21 \<le> 10 ^ (n - 1)"
        by (intro power_increasing) simp_all
      ultimately have "10 ^ 21 \<le> s * 10 ^ (n - k)" by linarith
      from round_to_double_large [OF this] r assms(2) show False by simp
    qed
    with kn len r s show ?thesis by simp
  qed
qed

lemma integer_digits_reads_back:
  assumes "0 < x" and "x < 10 ^ 21" and "round_to_double x = x"
  shows "\<exists>m. 0 \<le> m \<and> round_to_double m = x \<and> integer_digits x = dec_digits m"
proof -
  obtain s n where sn: "shortest_digits x 1 17 = (s, n)" by (cases "shortest_digits x 1 17")
  from shortest_digits_reads_back [OF assms sn]
  have s: "1 \<le> s" and kn: "length (dec_digits s) \<le> n" and n: "n \<le> 21"
    and r: "round_to_double (s * 10 ^ (n - length (dec_digits s))) = x"
    by simp_all
  from sn kn n have "integer_digits x = dec_digits s @ replicate (n - length (dec_digits s)) CHR ''0''"
    by (simp add: integer_digits_def Let_def)
  also from s have "\<dots> = dec_digits (s * 10 ^ (n - length (dec_digits s)))"
    by (simp add: dec_digits_shift)
  finally have "integer_digits x = dec_digits (s * 10 ^ (n - length (dec_digits s)))" .
  moreover from s have "0 \<le> s * 10 ^ (n - length (dec_digits s))" by simp
  ultimately show ?thesis using r by blast
qed

lemma format_integral_double:
  assumes "\<bar>i\<bar> < 10 ^ 21" and "round_to_double \<bar>i\<bar> = \<bar>i\<bar>"
  shows "\<exists>m. 0 \<le> m \<and> round_to_double m = \<bar>i\<bar>
           \<and> formatIfcValue (VNum (Finite (of_int i))) = (if i < 0 then ''-'' else []) @ dec_digits m"
proof (cases "i = 0")
  case True
  have "dec_digits 0 = ''0''" by (subst dec_digits.simps) (simp add: digit_char_def)
  moreover have "round_to_double 0 = 0"
    by (simp add: round_to_double_def bit_length.simps [of 0])
  ultimately show ?thesis using True
    by (intro exI [of _ 0]) (simp add: integer_toString_def)
next
  case False
  then have "0 < \<bar>i\<bar>" by simp
  from integer_digits_reads_back [OF this assms] False show ?thesis
    by (auto simp: integer_toString_def)
qed

lemma format_string: "formatIfcValue (VStr w) = quoted w"
proof -
  have "replace_all_quotes w = double_quotes w"
    unfolding replace_all_quotes_def by (induction w) simp_all
  then show ?thesis by (simp add: quoted_def)
qed

text \<open>
  Claim C5, as amended.  \<open>formatIfcValue\<close> maps \<open>null\<close> to \<open>$\<close>, \<open>true\<close> to
  \<open>.T.\<close> and \<open>false\<close> to \<open>.F.\<close>; an integral number of magnitude below
  \<open>2\<^sup>5\<^sup>3\<close> to its decimal digits, with no fractional part; an integral double
  of magnitude below \<open>10\<^sup>2\<^sup>1\<close> to the sign and the decimal digits of a natural
  number that rounds to its magnitude, with no fractional part; a finite number that is
  not integral (for a rational in general: of magnitude below \<open>10\<^sup>2\<^sup>1\<close>) to
  fixed point with six digits of precision, the trailing zeros trimmed but never below one
  digit after the dot, so that the output contains a dot; and a string to the string in
  single quotes with every single quote inside it doubled.
\<close>

theorem formatIfcValue_cases:
  "formatIfcValue VNull = ''$''
   \<and> formatIfcValue (VBool True) = ''.T.''
   \<and> formatIfcValue (VBool False) = ''.F.''
   \<and> (\<bar>i\<bar> < 2 ^ 53 \<longrightarrow> formatIfcValue (VNum (Finite (of_int i))) = decimal i)
   \<and> (\<bar>j\<bar> < 10 ^ 21 \<and> round_to_double \<bar>j\<bar> = \<bar>j\<bar> \<longrightarrow>
         (\<exists>m. 0 \<le> m \<and> round_to_double m = \<bar>j\<bar>
              \<and> formatIfcValue (VNum (Finite (of_int j)))
                  = (if j < 0 then ''-'' else []) @ dec_digits m))
   \<and> (x \<notin> \<int> \<and> \<bar>x\<bar> < 10 ^ 21 \<longrightarrow>
         formatIfcValue (VNum (Finite x)) = fixed_point x
         \<and> CHR ''.'' \<in> set (formatIfcValue (VNum (Finite x))))
   \<and> formatIfcValue (VStr w) = quoted w"
proof (intro conjI impI)
  show "formatIfcValue VNull = ''$''" "formatIfcValue (VBool True) = ''.T.''"
    "formatIfcValue (VBool False) = ''.F.''"
    by simp_all
  show "formatIfcValue (VNum (Finite (of_int i))) = decimal i" if "\<bar>i\<bar> < 2 ^ 53"
    using that by (rule format_integral)
  show "\<exists>m. 0 \<le> m \<and> round_to_double m = \<bar>j\<bar>
              \<and> formatIfcValue (VNum (Finite (of_int j)))
                  = (if j < 0 then ''-'' else []) @ dec_digits m"
    if "\<bar>j\<bar> < 10 ^ 21 \<and> round_to_double \<bar>j\<bar> = \<bar>j\<bar>"
    using that by (intro format_integral_double) simp_all
  show "formatIfcValue (VNum (Finite x)) = fixed_point x" if "x \<notin> \<int> \<and> \<bar>x\<bar> < 10 ^ 21"
    using that by (intro format_nonintegral) simp_all
  have "CHR ''.'' \<in> set (fixed_point x)"
    by (simp add: fixed_point_def Let_def)
  moreover have "formatIfcValue (VNum (Finite x)) = fixed_point x" if "x \<notin> \<int> \<and> \<bar>x\<bar> < 10 ^ 21"
    using that by (intro format_nonintegral) simp_all
  ultimately show "CHR ''.'' \<in> set (formatIfcValue (VNum (Finite x)))" if "x \<notin> \<int> \<and> \<bar>x\<bar> < 10 ^ 21"
    using that by simp
  show "formatIfcValue (VStr w) = quoted w"
    by (rule format_string)
qed

text \<open>
  The values \<open>42\<close>, \<open>-2\<^sup>6\<^sup>5\<close>, \<open>3.14\<close> and \<open>it's\<close>.  The second is
  printed with the digits of a number that rounds to \<open>2\<^sup>6\<^sup>5\<close>.
\<close>

theorem formatIfcValue_cases_witness:
  "\<bar>42 :: int\<bar> < 2 ^ 53
   \<and> formatIfcValue (VNum (Finite 42)) = ''42''
   \<and> \<bar>- 36893488147419103232 :: int\<bar> < 10 ^ 21
   \<and> round_to_double \<bar>- 36893488147419103232\<bar> = \<bar>- 36893488147419103232\<bar>
   \<and> formatIfcValue (VNum (Finite (- 36893488147419103232))) = ''-36893488147419103000''
   \<and> round_to_double 36893488147419103000 = 36893488147419103232
   \<and> (157 / 50 :: rat) \<notin> \<int>
   \<and> formatIfcValue (VNum (Finite (157 / 50))) = ''3.14''
   \<and> formatIfcValue (VStr [CHR ''i'', CHR ''t'', CHR 0x27, CHR ''s''])
       = [CHR 0x27, CHR ''i'', CHR ''t'', CHR 0x27, CHR 0x27, CHR ''s'', CHR 0x27]"
proof -
  have h1: "\<bar>42 :: int\<bar> < 2 ^ 53" by simp
  have "of_int \<lfloor>157 / 50 :: rat\<rfloor> \<noteq> (157 / 50 :: rat)" by code_simp
  then have h2: "(157 / 50 :: rat) \<notin> \<int>"
    by (simp only: floor_cancel_Ints not_False_eq_True)
  have h3: "\<bar>157 / 50 :: rat\<bar> < 10 ^ 21" by simp
  have h4: "\<bar>- 36893488147419103232 :: int\<bar> < 10 ^ 21" by simp
  have h5: "round_to_double \<bar>- 36893488147419103232\<bar> = \<bar>- 36893488147419103232\<bar>"
    by code_simp
  have e1: "decimal 42 = ''42''" by code_simp
  have e2: "fixed_point (157 / 50) = ''3.14''" by code_simp
  have e3: "quoted [CHR ''i'', CHR ''t'', CHR 0x27, CHR ''s'']
       = [CHR 0x27, CHR ''i'', CHR ''t'', CHR 0x27, CHR 0x27, CHR ''s'', CHR 0x27]"
    by code_simp
  have e4: "formatIfcValue (VNum (Finite (- 36893488147419103232))) = ''-36893488147419103000''"
    by code_simp
  have e5: "round_to_double 36893488147419103000 = 36893488147419103232"
    by code_simp
  from formatIfcValue_cases [of 42 "- 36893488147419103232" "157 / 50"
      "[CHR ''i'', CHR ''t'', CHR 0x27, CHR ''s'']"] h1 h2 h3 e1 e2 e3
  have "formatIfcValue (VNum (Finite 42)) = ''42''"
    and "formatIfcValue (VNum (Finite (157 / 50))) = ''3.14''"
    and "formatIfcValue (VStr [CHR ''i'', CHR ''t'', CHR 0x27, CHR ''s''])
       = [CHR 0x27, CHR ''i'', CHR ''t'', CHR 0x27, CHR 0x27, CHR ''s'', CHR 0x27]"
    by simp_all
  with h1 h2 h4 h5 e4 e5 show ?thesis by simp
qed

text \<open>
  The claim as stated fails on three numbers: the integral number \<open>2\<^sup>6\<^sup>4\<close> is
  printed with digits that are not its own, the integral number \<open>10\<^sup>2\<^sup>1\<close> is
  printed in exponent form, and \<open>Infinity\<close>, a number that is not integral, is printed
  without a dot.
\<close>

theorem formatIfcValue_counterexample:
  "isInteger (Finite 18446744073709551616)
   \<and> round_to_double 18446744073709551616 = 18446744073709551616
   \<and> formatIfcValue (VNum (Finite 18446744073709551616)) = ''18446744073709552000''
   \<and> isInteger (Finite (10 ^ 21))
   \<and> round_to_double (10 ^ 21) = 10 ^ 21
   \<and> formatIfcValue (VNum (Finite (10 ^ 21))) = ''1e+21''
   \<and> \<not> isInteger Infinity
   \<and> formatIfcValue (VNum Infinity) = ''Infinity''"
  by code_simp

section \<open>The header in rewrite mode\<close>

lemma expand_replacement_plain:
  "CHR ''$'' \<notin> set r \<Longrightarrow> expand_replacement m a b r = r"
  by (induction m a b r rule: expand_replacement.induct) auto

lemma index_from_fits:
  "index_from pat s = Some k \<Longrightarrow> k + length pat \<le> length s \<and> prefix pat (drop k s)"
proof (induction s arbitrary: k)
  case Nil
  then show ?case by (auto split: if_splits)
next
  case (Cons c cs)
  show ?case
  proof (cases "prefix pat (c # cs)")
    case True
    with Cons.prems show ?thesis by (auto dest: prefix_length_le)
  next
    case False
    with Cons.prems obtain k' where "index_from pat cs = Some k'" "k = Suc k'" by auto
    with Cons.IH [of k'] show ?thesis by simp
  qed
qed

lemma index_from_prefix: "prefix p s \<Longrightarrow> index_from p s = Some 0"
  by (cases s) auto

text \<open>The first occurrence of a pattern stays the first one when the text after it changes.\<close>

lemma index_from_take:
  "index_from pat u = Some j \<Longrightarrow> index_from pat (take (j + length pat) u @ w) = Some j"
proof (induction u arbitrary: j)
  case Nil
  then show ?case by (auto split: if_splits simp: index_from_prefix)
next
  case (Cons c cs)
  show ?case
  proof (cases "prefix pat (c # cs)")
    case True
    with Cons.prems have j: "j = 0" by simp
    from True have "take (length pat) (c # cs) = pat"
      by (metis append_eq_conv_conj prefix_def)
    then have "prefix pat (take (length pat) (c # cs) @ w)" by simp
    then show ?thesis
      unfolding j by (simp only: index_from_prefix add_0)
  next
    case False
    with Cons.prems obtain j' where j': "index_from pat cs = Some j'" "j = Suc j'" by auto
    from index_from_fits [OF j'(1)] have len: "j' + length pat \<le> length cs" by simp
    then have "length pat \<le> length (c # take (j' + length pat) cs)" by simp
    then have "prefix pat ((c # take (j' + length pat) cs) @ w) \<longleftrightarrow> prefix pat (c # take (j' + length pat) cs)"
      by (rule prefix_short)
    moreover have "prefix pat (c # take (j' + length pat) cs) \<longleftrightarrow> prefix pat (c # cs)"
    proof -
      have "c # cs = (c # take (j' + length pat) cs) @ drop (j' + length pat) cs" by simp
      moreover have "length pat \<le> length (c # take (j' + length pat) cs)" using len by simp
      ultimately show ?thesis using prefix_short by metis
    qed
    ultimately have "\<not> prefix pat (c # take (j' + length pat) cs @ w)"
      using False by simp
    with Cons.IH [OF j'(1)] j'(2) show ?thesis by simp
  qed
qed

text \<open>A pattern that starts with \<open>p\<close> and stands where \<open>p\<close> first occurs, first occurs there.\<close>

lemma index_from_longer:
  "index_from p s = Some k \<Longrightarrow> prefix p q \<Longrightarrow> prefix q (drop k s) \<Longrightarrow> index_from q s = Some k"
proof (induction s arbitrary: k)
  case Nil
  then show ?case by (auto split: if_splits)
next
  case (Cons c cs)
  show ?case
  proof (cases "prefix p (c # cs)")
    case True
    with Cons.prems show ?thesis by simp
  next
    case False
    with Cons.prems obtain k' where k': "index_from p cs = Some k'" "k = Suc k'" by auto
    from False Cons.prems(2) have "\<not> prefix q (c # cs)"
      using prefix_order.trans by blast
    with Cons.IH [OF k'(1) Cons.prems(2)] Cons.prems(3) k'(2) show ?thesis by simp
  qed
qed

text \<open>Whether \<open>p\<close> occurs before the end of \<open>pre\<close> in \<open>pre @ p @ x\<close> does not depend on \<open>x\<close>.\<close>

lemma index_from_after:
  "index_from p (pre @ p @ x) = Some (length pre) \<Longrightarrow> index_from p (pre @ p @ y) = Some (length pre)"
proof (induction pre)
  case Nil
  show ?case by (simp add: index_from_prefix)
next
  case (Cons c cs)
  have same: "prefix p ((c # cs @ p) @ z) \<longleftrightarrow> prefix p (c # cs @ p)" for z
    by (rule prefix_short) simp
  from Cons.prems have "\<not> prefix p (c # cs @ p @ x)"
    by (auto split: if_splits)
  with same [of x] same [of y] have no: "\<not> prefix p (c # cs @ p @ y)" by simp
  from Cons.prems have "index_from p (cs @ p @ x) = Some (length cs)"
    by (auto split: if_splits)
  with Cons.IH no show ?case by simp
qed


lemma prefix_take: "prefix p u \<Longrightarrow> length p \<le> n \<Longrightarrow> prefix p (take n u)"
  by (auto simp: prefix_def)

lemma extractHeaderSection_cases:
  obtains (none) "extractHeaderSection s = []"
  | (found) hs j where "index_from ''HEADER;'' s = Some hs"
      and "index_from ''ENDSEC;'' (drop hs s) = Some j"
      and "extractHeaderSection s = take (j + 7) (drop hs s)"
proof (cases "index_from ''HEADER;'' s")
  case None
  then have "extractHeaderSection s = []"
    by (simp add: extractHeaderSection_def indexOf_def)
  then show ?thesis by (rule none)
next
  case hs: (Some hs)
  from index_from_fits [OF hs] have le: "hs \<le> length s" by simp
  show ?thesis
  proof (cases "index_from ''ENDSEC;'' (drop hs s)")
    case None
    with hs have "extractHeaderSection s = []"
      by (simp add: extractHeaderSection_def indexOf_def)
    then show ?thesis by (rule none)
  next
    case (Some j)
    with hs le have "extractHeaderSection s = take (j + 7) (drop hs s)"
      by (simp add: extractHeaderSection_def indexOf_def substring_def min_def)
    with hs Some show ?thesis by (rule found)
  qed
qed

lemma extractHeaderSection_found:
  assumes "index_from ''HEADER;'' s = Some hs" and "index_from ''ENDSEC;'' (drop hs s) = Some j"
  shows "extractHeaderSection s = take (j + 7) (drop hs s)"
proof -
  from index_from_fits [OF assms(1)] have "hs \<le> length s" by simp
  with assms show ?thesis
    by (simp add: extractHeaderSection_def indexOf_def substring_def min_def)
qed

text \<open>A header section, put after any text without an earlier \<open>HEADER;\<close>, is read back.\<close>

lemma header_read_back:
  assumes j: "index_from ''ENDSEC;'' u = Some j" and u: "prefix ''HEADER;'' u"
    and pre: "index_from ''HEADER;'' (pre @ ''HEADER;'' @ x) = Some (length pre)"
  shows "extractHeaderSection (pre @ take (j + 7) u @ post) = take (j + 7) u"
proof -
  let ?h = "take (j + 7) u"
  from index_from_fits [OF j] have len: "j + 7 \<le> length u" by simp
  have "length ''HEADER;'' \<le> j + 7" by simp
  with u have "prefix ''HEADER;'' ?h" by (rule prefix_take)
  then obtain h where h: "?h = ''HEADER;'' @ h"
    unfolding prefix_def by blast
  from pre have "index_from ''HEADER;'' (pre @ ''HEADER;'' @ h @ post) = Some (length pre)"
    by (rule index_from_after)
  with h have hs: "index_from ''HEADER;'' (pre @ ?h @ post) = Some (length pre)"
    by simp
  have l7: "length ''ENDSEC;'' = 7" by simp
  from j have "index_from ''ENDSEC;'' (take (j + length ''ENDSEC;'') u @ post) = Some j"
    by (rule index_from_take)
  then have "index_from ''ENDSEC;'' (drop (length pre) (pre @ ?h @ post)) = Some j"
    unfolding l7 by simp
  from extractHeaderSection_found [OF hs this] len show ?thesis by simp
qed

text \<open>
  Where the HEADER section of the original text exists and holds no dollar sign,
  \<open>rewriteExport\<close> hands it back as it was, whatever the patches did to the text.
\<close>

lemma rewriteExport_header_plain:
  assumes "extractHeaderSection orig \<noteq> []"
    and "CHR ''$'' \<notin> set (extractHeaderSection orig)"
  shows "extractHeaderSection (rewriteExport orig patches) = extractHeaderSection orig"
proof -
  define res where "res = foldl rewrite_step orig patches"
  let ?H = "extractHeaderSection orig" and ?H' = "extractHeaderSection res"
  from assms(1) obtain hs j where "index_from ''HEADER;'' orig = Some hs"
    and j: "index_from ''ENDSEC;'' (drop hs orig) = Some j"
    and H: "?H = take (j + 7) (drop hs orig)"
    by (cases orig rule: extractHeaderSection_cases) auto
  then have u: "prefix ''HEADER;'' (drop hs orig)"
    using index_from_fits by blast
  show ?thesis
  proof (cases "?H' = ?H")
    case True
    then show ?thesis by (simp add: rewriteExport_def Let_def flip: res_def)
  next
    case False
    have "extractHeaderSection (replace_first res ?H' ?H) = ?H"
    proof (cases res rule: extractHeaderSection_cases)
      case none
      then have "replace_first res ?H' ?H = [] @ ?H @ res"
        using assms(2) by (simp add: replace_first_def indexOf_def index_from_prefix expand_replacement_plain)
      moreover have "index_from ''HEADER;'' ([] @ ''HEADER;'' @ []) = Some (length ([] :: string))"
        by simp
      ultimately show ?thesis
        unfolding H using header_read_back [OF j u, of "[]" "[]" res] by simp
    next
      case (found hs' j')
      define pre where "pre = take hs' res"
      define u' where "u' = drop hs' res"
      from index_from_fits [OF found(1)] have hs': "hs' \<le> length res" "prefix ''HEADER;'' u'"
        by (simp_all add: u'_def)
      from index_from_fits [OF found(2)] have len: "j' + 7 \<le> length u'"
        by (simp add: u'_def)
      have res: "res = pre @ u'" by (simp add: pre_def u'_def)
      have lp: "length pre = hs'" using hs'(1) by (simp add: pre_def)
      have H': "?H' = take (j' + 7) u'" using found(3) by (simp add: u'_def)
      have "length ''HEADER;'' \<le> j' + 7" by simp
      with hs'(2) have "prefix ''HEADER;'' (take (j' + 7) u')"
        by (rule prefix_take)
      moreover have "prefix (take (j' + 7) u') (drop hs' res)"
        unfolding u'_def by (rule take_is_prefix)
      ultimately have "index_from ?H' res = Some hs'"
        unfolding H' using found(1) index_from_longer by blast
      moreover have "length ?H' = j' + 7" using len by (simp add: H')
      ultimately have out: "replace_first res ?H' ?H = pre @ ?H @ drop (j' + 7) u'"
        using assms(2)
        by (simp add: replace_first_def indexOf_def expand_replacement_plain pre_def u'_def add.commute)
      from hs'(2) obtain x where "u' = ''HEADER;'' @ x" unfolding prefix_def by blast
      with found(1) res lp have "index_from ''HEADER;'' (pre @ ''HEADER;'' @ x) = Some (length pre)"
        by simp
      from header_read_back [OF j u this, of "drop (j' + 7) u'"]
      have "extractHeaderSection (pre @ ?H @ drop (j' + 7) u') = ?H"
        by (simp only: H)
      then show ?thesis by (simp only: out)
    qed
    with False show ?thesis by (simp add: rewriteExport_def Let_def flip: res_def)
  qed
qed

text \<open>
  Claim C2 says that the HEADER section of the output of \<open>rewriteExport\<close> is the HEADER
  section of the original text, for every text and every patch list.  The code restores
  the section with \<open>String.prototype.replace\<close>, which reads \<open>$$\<close> in the replacement
  as one dollar sign.  In the file below the patch lands on the record quoted in the header
  comment, the header is restored, and the restored header has lost a dollar sign.
\<close>

theorem rewriteExport_header_changed:
  "extractHeaderSection commented_text
     = ''HEADER;/* $$ #12=IFCPROPERTYSINGLEVALUE('FireRating',$,IFCLABEL('2HR'); */FILE_SCHEMA(('IFC4'));ENDSEC;''
   \<and> extractHeaderSection (rewriteExport commented_text
         [ref_patch [CHR 0x27, CHR ''2'', CHR ''H'', CHR ''R'', CHR 0x27]
                    [CHR 0x27, CHR ''1'', CHR ''H'', CHR ''R'', CHR 0x27]])
     = ''HEADER;/* $ #12=IFCPROPERTYSINGLEVALUE('FireRating',$,IFCLABEL('2HR'); */FILE_SCHEMA(('IFC4'));ENDSEC;''"
  by code_simp

end
